theory Spec2Isabelle
  imports Complex_Main "HOL-Library.Sublist" "HOL-Library.Multiset"
begin

section \<open>Data model of the RAG service (services/geminiService.ts)\<close>

text \<open>
  A \<open>DocChunk\<close> is the interface of the source: \<open>id\<close>, \<open>text\<close>, an optional
  \<open>embedding\<close> and \<open>pageNumber\<close>. The processing of a document does not look into the
  embedding vectors, so their type is a parameter \<open>'v\<close> there; the answer generator
  has them as lists of numbers. Strings are lists of
  characters, one element per code unit; \<open>length\<close> is the source's \<open>.length\<close>. The
  character type has the code units below 256; the functions below treat a code unit
  above the ASCII range as the source treats all of them: text to be copied.
  Field names carry a suffix (\<open>_c\<close> for a chunk, \<open>_p\<close> for a page, \<open>_d\<close> for a document)
  where the bare name is taken or is also a local variable of the source.
\<close>

record 'v DocChunk =
  id_c :: string
  text_c :: string
  embedding :: "'v option"
  pageNumber :: int

text \<open>An extracted page: the \<open>{ text, page }\<close> objects of \<open>extractTextFromPdf\<close>.\<close>

record Page =
  text_p :: string
  page_p :: int

record 'v ProcessedDocument =
  chunks_d :: "'v DocChunk list"
  fullText_d :: string

subsection \<open>JavaScript primitives used by the service\<close>

text \<open>
  \<open>String.prototype.slice(start, end)\<close>: a negative index counts from the end, both
  indices are clamped to the string, and an empty range gives the empty string.
\<close>

definition slice :: "'a list \<Rightarrow> int \<Rightarrow> int \<Rightarrow> 'a list" where
  "slice s start end' =
     (let len = int (length s);
          from = (if start < 0 then max (len + start) 0 else min start len);
          to = (if end' < 0 then max (len + end') 0 else min end' len)
      in if from \<ge> to then [] else take (nat (to - from)) (drop (nat from) s))"

text \<open>Number to string, for the integers that occur in template literals.\<close>

definition digitChar :: "nat \<Rightarrow> char" where
  "digitChar d = ''0123456789'' ! d"

function showNat :: "nat \<Rightarrow> string" where
  "showNat n = (if n < 10 then [digitChar n] else showNat (n div 10) @ [digitChar (n mod 10)])"
  by pat_completeness auto
termination
  by (relation "measure (\<lambda>n. n)") auto

declare showNat.simps [simp del]

definition toString :: "int \<Rightarrow> string" where
  "toString i = (if i < 0 then CHR ''-'' # showNat (nat (- i)) else showNat (nat i))"

text \<open>\<open>Array.prototype.join\<close> on strings.\<close>

fun join :: "string \<Rightarrow> string list \<Rightarrow> string" where
  "join sep [] = []"
| "join sep [x] = x"
| "join sep (x # y # ys) = x @ sep @ join sep (y # ys)"

section \<open>The chunker: \<open>chunkText\<close>\<close>

text \<open>
  One pushed chunk of the loop body: \<open>end = Math.min(start + chunkSize, text.length)\<close>,
  the slice, the id \<open>`${page}-${start}`\<close>, no embedding yet.
\<close>

definition mkChunk :: "string \<Rightarrow> int \<Rightarrow> int \<Rightarrow> int \<Rightarrow> 'v DocChunk" where
  "mkChunk text pg chunkSize start =
     (let end' = min (start + chunkSize) (int (length text));
          chunkText = slice text start end'
      in \<lparr> id_c = toString pg @ ''-'' @ toString start,
           text_c = chunkText,
           embedding = None,
           pageNumber = pg \<rparr>)"

text \<open>
  The \<open>while (start < text.length)\<close> loop of one page, pushing onto the shared array
  \<open>chunks\<close>. The loop need not terminate (the step \<open>chunkSize - overlap\<close> may be zero or
  negative), so it is a partial function: \<open>None\<close> is a call that never returns.
\<close>

partial_function (option) chunkLoop ::
  "string \<Rightarrow> int \<Rightarrow> int \<Rightarrow> int \<Rightarrow> int \<Rightarrow> 'v DocChunk list \<Rightarrow> 'v DocChunk list option" where
  "chunkLoop text pg chunkSize overlap start chunks =
     (if start < int (length text) then
        (let chunks' = chunks @ [mkChunk text pg chunkSize start];
             start' = start + (chunkSize - overlap)
         in if start' \<ge> int (length text) then Some chunks'
            else chunkLoop text pg chunkSize overlap start' chunks')
      else Some chunks)"

declare chunkLoop.simps [code]

text \<open>\<open>pages.forEach\<close>: the pages in order, each starting at offset 0.\<close>

fun forEachPage :: "Page list \<Rightarrow> int \<Rightarrow> int \<Rightarrow> 'v DocChunk list \<Rightarrow> 'v DocChunk list option" where
  "forEachPage [] chunkSize overlap chunks = Some chunks"
| "forEachPage (p # ps) chunkSize overlap chunks =
     (case chunkLoop (text_p p) (page_p p) chunkSize overlap 0 chunks of
        None \<Rightarrow> None
      | Some chunks' \<Rightarrow> forEachPage ps chunkSize overlap chunks')"

definition chunkText :: "Page list \<Rightarrow> int \<Rightarrow> int \<Rightarrow> 'v DocChunk list option" where
  "chunkText pages chunkSize overlap = forEachPage pages chunkSize overlap []"

text \<open>The defaults of the parameter list, the only configuration \<open>processPdf\<close> uses.\<close>

definition defaultChunkSize :: int where "defaultChunkSize = 4000"
definition defaultOverlap :: int where "defaultOverlap = 500"

section \<open>External capabilities and errors\<close>

text \<open>
  An exception is a value. \<open>CapabilityError\<close> is whatever an external call throws (the file
  reader, the PDF library, the model client), with its message; \<open>NoEmbeddingReturned\<close> is the
  \<open>Error("No embedding returned")\<close> of \<open>getEmbedding\<close>; \<open>TypeError\<close> is what reading an element
  of \<open>undefined\<close> raises.
\<close>

datatype error = CapabilityError string | NoEmbeddingReturned | TypeError

text \<open>
  \<open>ai.models.embedContent\<close>: the answer to the \<open>k\<close>-th request of a run, for the text sent.
  It throws, or it answers with the optional list \<open>embeddings\<close> of vectors (the source
  types \<open>embeddings[0].values\<close> as a vector). Indexing by the request lets two requests with
  the same text have different outcomes.
\<close>

type_synonym 'v embedApi = "nat \<Rightarrow> string \<Rightarrow> error + 'v list option"

text \<open>
  \<open>ai.models.generateContentStream\<close>: for a prompt, the chunks the stream delivers (each with
  an optional \<open>text\<close>) and, when the call or the stream fails, the error that ends it.
  The stream is finite.
\<close>

type_synonym genApi = "string \<Rightarrow> string option list \<times> error option"

text \<open>The requests a run sends to the two capabilities, in order, with the text sent.\<close>

datatype request = EmbedRequest string | GenerateRequest string

section \<open>The model client: \<open>getEmbedding\<close> and \<open>getCompletionStream\<close>\<close>

text \<open>\<open>text.replace(/\n/g, " ")\<close>\<close>

definition cleanText :: "string \<Rightarrow> string" where
  "cleanText text = map (\<lambda>c. if c = CHR 0x0A then CHR '' '' else c) text"

text \<open>
  \<open>getEmbedding\<close>: the catch block logs and rethrows, so an error of the call and the
  error of an empty answer both leave the function as exceptions.
\<close>

definition getEmbedding :: "'v embedApi \<Rightarrow> nat \<Rightarrow> string \<Rightarrow> error + 'v" where
  "getEmbedding embedContent k text =
     (case embedContent k (cleanText text) of
        Inl e \<Rightarrow> Inl e
      | Inr None \<Rightarrow> Inl NoEmbeddingReturned
      | Inr (Some []) \<Rightarrow> Inl NoEmbeddingReturned
      | Inr (Some (values # _)) \<Rightarrow> Inr values)"

definition streamErrorFragment :: string where
  "streamErrorFragment = ''Error generating response. Check browser console for details.''"

text \<open>\<open>if (chunk.text) yield chunk.text\<close>: a chunk without text, or with the empty text, is skipped.\<close>

fun yieldedTexts :: "string option list \<Rightarrow> string list" where
  "yieldedTexts [] = []"
| "yieldedTexts (None # cs) = yieldedTexts cs"
| "yieldedTexts (Some t # cs) = (if t = [] then yieldedTexts cs else t # yieldedTexts cs)"

text \<open>
  \<open>getCompletionStream\<close>: the fragments the generator yields. The whole body is inside
  \<open>try\<close>, and the catch block yields the error fragment, so the generator never throws.
\<close>

definition getCompletionStream :: "genApi \<Rightarrow> string \<Rightarrow> string list" where
  "getCompletionStream generateContentStream prompt =
     (case generateContentStream prompt of
        (delivered, failure) \<Rightarrow>
          yieldedTexts delivered @
          (case failure of None \<Rightarrow> [] | Some e \<Rightarrow> [streamErrorFragment]))"

section \<open>The RAG service: \<open>processPdf\<close>\<close>

definition batchSize :: nat where "batchSize = 5"

text \<open>
  One element of \<open>batch.map(async (chunk) => \<dots>)\<close>: the chunk at index \<open>j\<close> gets its
  embedding, or the catch block swallows the error and the chunk stays as it is. The batch
  holds the chunk objects of \<open>chunks\<close> themselves, so the assignment is an update of
  \<open>chunks\<close> at \<open>j\<close>.
\<close>

definition embedChunk :: "'v embedApi \<Rightarrow> nat \<Rightarrow> 'v DocChunk list \<Rightarrow> 'v DocChunk list" where
  "embedChunk embedContent j chunks =
     (case getEmbedding embedContent j (text_c (chunks ! j)) of
        Inr v \<Rightarrow> chunks[j := (chunks ! j)\<lparr>embedding := Some v\<rparr>]
      | Inl e \<Rightarrow> chunks)"

text \<open>
  \<open>await Promise.all(batch.map(\<dots>))\<close> for \<open>batch = chunks.slice(i, i + batchSize)\<close>. The
  requests are issued in index order; each completion writes only its own chunk, so the
  order in which they complete does not show in the result.
\<close>

definition embedBatch :: "'v embedApi \<Rightarrow> nat \<Rightarrow> 'v DocChunk list \<Rightarrow> 'v DocChunk list" where
  "embedBatch embedContent i chunks =
     fold (embedChunk embedContent) [i ..< min (i + batchSize) (length chunks)] chunks"

lemma length_embedChunk: "length (embedChunk embedContent j chunks) = length chunks"
  by (simp add: embedChunk_def split: sum.splits)

lemma length_fold_embedChunk: "length (fold (embedChunk embedContent) js chunks) = length chunks"
  by (induction js arbitrary: chunks) (simp_all add: length_embedChunk)

lemma length_embedBatch: "length (embedBatch embedContent i chunks) = length chunks"
  by (simp add: embedBatch_def length_fold_embedChunk)

text \<open>\<open>for (let i = 0; i < chunks.length; i += batchSize)\<close>\<close>

function embedLoop :: "'v embedApi \<Rightarrow> nat \<Rightarrow> 'v DocChunk list \<Rightarrow> 'v DocChunk list" where
  "embedLoop embedContent i chunks =
     (if i < length chunks
      then embedLoop embedContent (i + batchSize) (embedBatch embedContent i chunks)
      else chunks)"
  by pat_completeness auto
termination
  by (relation "measure (\<lambda>(embedContent, i, chunks). length chunks - i)")
     (auto simp add: length_embedBatch batchSize_def)

declare embedLoop.simps [simp del]

text \<open>
  \<open>processPdf\<close>. The extraction is an external service: \<open>extracted\<close> is what
  \<open>extractTextFromPdf\<close> returns or throws. The progress callback only reports and is left
  out. The outer \<open>option\<close> is the one of \<open>chunkText\<close>.
\<close>

definition processPdf ::
  "error + Page list \<Rightarrow> 'v embedApi \<Rightarrow> (error + 'v ProcessedDocument) option" where
  "processPdf extracted embedContent =
     (case extracted of
        Inl e \<Rightarrow> Some (Inl e)
      | Inr pages \<Rightarrow>
          (let fullText = join ''\<newline>\<newline>'' (map text_p pages) in
           case chunkText pages defaultChunkSize defaultOverlap of
             None \<Rightarrow> None
           | Some chunks \<Rightarrow>
               (let embedded = embedLoop embedContent 0 chunks;
                    validChunks = filter (\<lambda>c. embedding c \<noteq> None) embedded
                in Some (Inr \<lparr> chunks_d = validChunks, fullText_d = fullText \<rparr>))))"

section \<open>The RAG service: \<open>generateAnswer\<close>\<close>

subsection \<open>The summary test\<close>

text \<open>
  \<open>/summar|overview|tl;dr|digest|describe the document/i.test(question)\<close>. The pattern is
  an alternation of literals. With the flag \<open>i\<close> and without the flag \<open>u\<close> two code units
  match when their canonical forms are equal, the canonical form being the upper case
  unless that leaves ASCII; for the ASCII characters of this pattern only the letter itself
  and its other case have the same canonical form.
\<close>

definition canonicalize :: "char \<Rightarrow> char" where
  "canonicalize c =
     (let n = of_char c :: nat in if 97 \<le> n \<and> n \<le> 122 then char_of (n - 32) else c)"

text \<open>A literal alternative matched at the head of the input.\<close>

fun matchLiteral :: "string \<Rightarrow> string \<Rightarrow> bool" where
  "matchLiteral [] s = True"
| "matchLiteral (p # ps) [] = False"
| "matchLiteral (p # ps) (c # cs) = (canonicalize p = canonicalize c \<and> matchLiteral ps cs)"

text \<open>\<open>test\<close>: the alternatives in order at the first position, then at the next one.\<close>

fun regexTest :: "string list \<Rightarrow> string \<Rightarrow> bool" where
  "regexTest alternatives [] = list_ex (\<lambda>alt. matchLiteral alt []) alternatives"
| "regexTest alternatives (c # cs) =
     (list_ex (\<lambda>alt. matchLiteral alt (c # cs)) alternatives \<or> regexTest alternatives cs)"

definition summaryKeywords :: "string list" where
  "summaryKeywords = [''summar'', ''overview'', ''tl;dr'', ''digest'', ''describe the document'']"

definition isSummaryRequest :: "string \<Rightarrow> bool" where
  "isSummaryRequest question = regexTest summaryKeywords question"

text \<open>
  For the statement of the claim: \<open>toLowerCase\<close> on the ASCII letters, and
  \<open>String.prototype.includes\<close>.
\<close>

definition lowerChar :: "char \<Rightarrow> char" where
  "lowerChar c =
     (let n = of_char c :: nat in if 65 \<le> n \<and> n \<le> 90 then char_of (n + 32) else c)"

definition toLowerCase :: "string \<Rightarrow> string" where
  "toLowerCase s = map lowerChar s"

definition stringIncludes :: "string \<Rightarrow> string \<Rightarrow> bool" where
  "stringIncludes s k = (\<exists>before after. s = before @ k @ after)"

subsection \<open>Prompts and fixed fragments\<close>

definition MAX_CHARS :: int where "MAX_CHARS = 3000000"

definition textToSend :: "string \<Rightarrow> string" where
  "textToSend fullText =
     (if int (length fullText) > MAX_CHARS
      then slice fullText 0 MAX_CHARS @ ''...[truncated]''
      else fullText)"

definition summaryPrompt :: "string \<Rightarrow> string \<Rightarrow> string" where
  "summaryPrompt sent question =
     ''\<newline>      You are an expert document assistant.'' @
     ''\<newline>      The user wants a summary or overview of the following document.'' @
     ''\<newline>      Provide a comprehensive, detailed, and well-structured summary.'' @
     ''\<newline>      Explain the key points in depth.'' @
     ''\<newline>      '' @
     ''\<newline>      Document Content:'' @
     ''\<newline>      '' @ sent @
     ''\<newline>      '' @
     ''\<newline>      User Request: '' @ question @
     ''\<newline>    ''"

definition summarySourceFragment :: string where
  "summarySourceFragment = ''\<newline>\<newline>**Source:** Full Document Analysis''"

definition ragPrompt :: "string \<Rightarrow> string \<Rightarrow> string" where
  \<open>ragPrompt context question =
     ''\<newline>    You are a helpful assistant answering questions about a document.'' @
     ''\<newline>    Use the following context snippets from the document to answer the question.'' @
     ''\<newline>    '' @
     ''\<newline>    Instructions:'' @
     ''\<newline>    1. Provide a  well-explained** answer. Do not be too brief.'' @
     ''\<newline>    2. Explain the concepts thoroughly based on the text.'' @
     ''\<newline>    3. If the answer is not in the context, say "I cannot find the answer in the document."'' @
     ''\<newline>    '' @
     ''\<newline>    Context:'' @
     ''\<newline>    '' @ context @
     ''\<newline>    '' @
     ''\<newline>    Question:'' @
     ''\<newline>    '' @ question @
     ''\<newline>    '' @
     ''\<newline>    Answer:'' @
     ''\<newline>  ''\<close>

subsection \<open>Numbers and the cosine similarity\<close>

text \<open>
  A JavaScript number as the similarity code meets it: a number, read as a real (rounding
  is not modelled), or \<open>NaN\<close>. Arithmetic with \<open>NaN\<close> gives \<open>NaN\<close>, and so does \<open>0 / 0\<close>.
  A number other than zero divided by zero is an infinity; the type has none, and the
  division below is only used where the dividend is zero whenever the divisor is.
\<close>

datatype number = Num real | NaN

fun numPlus :: "number \<Rightarrow> number \<Rightarrow> number" where
  "numPlus (Num x) (Num y) = Num (x + y)"
| "numPlus _ _ = NaN"

fun numMinus :: "number \<Rightarrow> number \<Rightarrow> number" where
  "numMinus (Num x) (Num y) = Num (x - y)"
| "numMinus _ _ = NaN"

fun numTimes :: "number \<Rightarrow> number \<Rightarrow> number" where
  "numTimes (Num x) (Num y) = Num (x * y)"
| "numTimes _ _ = NaN"

fun numDivide :: "number \<Rightarrow> number \<Rightarrow> number" where
  "numDivide (Num x) (Num y) = (if y = 0 then NaN else Num (x / y))"
| "numDivide _ _ = NaN"

fun numSqrt :: "number \<Rightarrow> number" where
  "numSqrt (Num x) = (if x < 0 then NaN else Num (sqrt x))"
| "numSqrt NaN = NaN"

text \<open>
  \<open>vec[i]\<close> as an operand: the element, or \<open>undefined\<close> past the end, which arithmetic
  turns into \<open>NaN\<close>.
\<close>

definition element :: "real list \<Rightarrow> nat \<Rightarrow> number" where
  "element vec i = (if i < length vec then Num (vec ! i) else NaN)"

text \<open>
  \<open>cosineSimilarity\<close>: the loop over \<open>i < vecA.length\<close> with the three running sums, then
  \<open>dotProduct / (Math.sqrt(normA) * Math.sqrt(normB))\<close>.
\<close>

definition cosineSums :: "real list \<Rightarrow> real list \<Rightarrow> number \<times> number \<times> number" where
  "cosineSums vecA vecB =
     fold (\<lambda>i (dotProduct, normA, normB).
             (numPlus dotProduct (numTimes (element vecA i) (element vecB i)),
              numPlus normA (numTimes (element vecA i) (element vecA i)),
              numPlus normB (numTimes (element vecB i) (element vecB i))))
          [0 ..< length vecA] (Num 0, Num 0, Num 0)"

definition cosineSimilarity :: "real list \<Rightarrow> real list \<Rightarrow> number" where
  "cosineSimilarity vecA vecB =
     (case cosineSums vecA vecB of
        (dotProduct, normA, normB) \<Rightarrow>
          numDivide dotProduct (numTimes (numSqrt normA) (numSqrt normB)))"

subsection \<open>Ranking\<close>

text \<open>\<open>{ ...chunk, score }\<close>\<close>

record 'v ScoredChunk = "'v DocChunk" +
  score :: number

text \<open>
  \<open>Array.prototype.sort(compare)\<close>. The language reads a comparison that is \<open>NaN\<close> as
  zero (\<open>sortCompare\<close>). For a comparator that is consistent on the elements of the array
  it fixes the result: the sorted permutation that keeps the order of the elements that
  compare equal. Insertion from the right computes it: an element stays in front of the
  elements behind it unless the comparator puts it after them. For a comparator that is
  not consistent the order is left to the engine, which returns some permutation; what the
  engine does is a parameter: from the table of all comparisons it gives the indices of
  the elements in the order it returns them. An answer that is not a permutation of the
  indices does not occur; it is read as the array left as it is.
\<close>

fun sortCompare :: "number \<Rightarrow> real" where
  "sortCompare NaN = 0"
| "sortCompare (Num v) = v"

text \<open>
  The consistent comparators of the language: for all elements \<open>a\<close>, \<open>b\<close>, \<open>c\<close> of the
  array the comparison is a number, and the comparator is reflexive, symmetric and
  transitive in the three ways.
\<close>

definition consistentAt :: "('a \<Rightarrow> 'a \<Rightarrow> number) \<Rightarrow> 'a \<Rightarrow> 'a \<Rightarrow> 'a \<Rightarrow> bool" where
  "consistentAt compare a b c =
     (compare a b \<noteq> NaN
      \<and> sortCompare (compare a a) = 0
      \<and> (sortCompare (compare a b) = 0 \<longrightarrow> sortCompare (compare b a) = 0)
      \<and> (sortCompare (compare a b) = 0 \<and> sortCompare (compare b c) = 0
           \<longrightarrow> sortCompare (compare a c) = 0)
      \<and> (sortCompare (compare a b) < 0 \<and> sortCompare (compare b c) < 0
           \<longrightarrow> sortCompare (compare a c) < 0)
      \<and> (sortCompare (compare a b) > 0 \<and> sortCompare (compare b c) > 0
           \<longrightarrow> sortCompare (compare a c) > 0))"

definition consistentComparator :: "('a \<Rightarrow> 'a \<Rightarrow> number) \<Rightarrow> 'a list \<Rightarrow> bool" where
  "consistentComparator compare xs =
     list_all (\<lambda>a. list_all (\<lambda>b. list_all (\<lambda>c. consistentAt compare a b c) xs) xs) xs"

fun insertBy :: "('a \<Rightarrow> 'a \<Rightarrow> number) \<Rightarrow> 'a \<Rightarrow> 'a list \<Rightarrow> 'a list" where
  "insertBy compare x [] = [x]"
| "insertBy compare x (y # ys) =
     (if sortCompare (compare x y) \<le> 0 then x # y # ys else y # insertBy compare x ys)"

type_synonym sortEngine = "number list list \<Rightarrow> nat list"

definition engineOrder :: "nat list \<Rightarrow> 'a list \<Rightarrow> 'a list" where
  "engineOrder indices xs =
     (if mset indices = mset [0 ..< length xs] then map (\<lambda>i. xs ! i) indices else xs)"

definition sortBy :: "sortEngine \<Rightarrow> ('a \<Rightarrow> 'a \<Rightarrow> number) \<Rightarrow> 'a list \<Rightarrow> 'a list" where
  "sortBy engine compare xs =
     (if consistentComparator compare xs
      then foldr (insertBy compare) xs []
      else engineOrder (engine (map (\<lambda>x. map (\<lambda>y. compare x y) xs) xs)) xs)"

text \<open>
  The callback of \<open>chunks.map\<close>:
  \<open>({ ...chunk, score: cosineSimilarity(questionEmbedding, chunk.embedding!) })\<close>. The
  \<open>!\<close> is erased when the code runs. With \<open>embedding\<close> undefined the first \<open>vecB[i]\<close>
  raises a \<open>TypeError\<close>; when the question embedding is empty the loop does not run and
  the result is \<open>0 / 0\<close>.
\<close>

definition scoreChunk :: "real list \<Rightarrow> real list DocChunk \<Rightarrow> error + real list ScoredChunk" where
  "scoreChunk questionEmbedding chunk =
     (case embedding chunk of
        Some vecB \<Rightarrow>
          Inr \<lparr> id_c = id_c chunk, text_c = text_c chunk, embedding = embedding chunk,
                pageNumber = pageNumber chunk,
                score = cosineSimilarity questionEmbedding vecB \<rparr>
      | None \<Rightarrow>
          if questionEmbedding = []
          then Inr \<lparr> id_c = id_c chunk, text_c = text_c chunk, embedding = embedding chunk,
                     pageNumber = pageNumber chunk, score = NaN \<rparr>
          else Inl TypeError)"

text \<open>\<open>chunks.map(\<dots>)\<close>: the chunks in order; the first exception ends the map.\<close>

fun scoredChunks ::
  "real list \<Rightarrow> real list DocChunk list \<Rightarrow> error + real list ScoredChunk list" where
  "scoredChunks questionEmbedding [] = Inr []"
| "scoredChunks questionEmbedding (chunk # rest) =
     (case scoreChunk questionEmbedding chunk of
        Inl e \<Rightarrow> Inl e
      | Inr scored \<Rightarrow>
          (case scoredChunks questionEmbedding rest of
             Inl e \<Rightarrow> Inl e
           | Inr others \<Rightarrow> Inr (scored # others)))"

text \<open>\<open>scoredChunks.sort((a, b) => b.score - a.score).slice(0, 8)\<close>\<close>

definition topChunks :: "sortEngine \<Rightarrow> 'v ScoredChunk list \<Rightarrow> 'v ScoredChunk list" where
  "topChunks engine scored =
     slice (sortBy engine (\<lambda>a b. numMinus (score b) (score a)) scored) 0 8"

text \<open>\<open>Array.from(new Set(xs))\<close>: the first occurrence of each value, in order.\<close>

definition arrayFromSet :: "'a list \<Rightarrow> 'a list" where
  "arrayFromSet xs = fold (\<lambda>x seen. if x \<in> set seen then seen else seen @ [x]) xs []"

text \<open>\<open>Array.from(new Set(topChunks.map(c => c.pageNumber))).sort((a, b) => a - b)\<close>\<close>

definition uniquePages :: "sortEngine \<Rightarrow> 'v ScoredChunk list \<Rightarrow> int list" where
  "uniquePages engine retrieved =
     sortBy engine (\<lambda>a b. Num (of_int a - of_int b)) (arrayFromSet (map pageNumber retrieved))"

definition sourcesFragment :: "int list \<Rightarrow> string" where
  "sourcesFragment pages =
     ''\<newline>\<newline>**Sources:** Page'' @ (if length pages > 1 then ''s'' else []) @ '' '' @
     join '', '' (map toString pages)"

subsection \<open>The generator\<close>

text \<open>
  A run of the generator \<open>generateAnswer\<close> to its end: the fragments it yields, the
  exception that ends it if one does, and the requests it sent. Besides the two
  capabilities the run depends on the engine that sorts.
\<close>

record AnswerRun =
  yielded :: "string list"
  thrown :: "error option"
  requests :: "request list"

definition generateAnswer ::
  "real list embedApi \<Rightarrow> genApi \<Rightarrow> sortEngine \<Rightarrow> string \<Rightarrow> real list ProcessedDocument
     \<Rightarrow> AnswerRun" where
  "generateAnswer embedContent generateContentStream engine question docData =
     (if isSummaryRequest question then
        (let prompt = summaryPrompt (textToSend (fullText_d docData)) question
         in \<lparr> yielded = getCompletionStream generateContentStream prompt @ [summarySourceFragment],
              thrown = None,
              requests = [GenerateRequest prompt] \<rparr>)
      else
        (case getEmbedding embedContent 0 question of
           Inl e \<Rightarrow>
             \<lparr> yielded = [], thrown = Some e, requests = [EmbedRequest (cleanText question)] \<rparr>
         | Inr questionEmbedding \<Rightarrow>
             (case scoredChunks questionEmbedding (chunks_d docData) of
                Inl e \<Rightarrow>
                  \<lparr> yielded = [], thrown = Some e,
                    requests = [EmbedRequest (cleanText question)] \<rparr>
              | Inr scored \<Rightarrow>
                  (let retrieved = topChunks engine scored;
                       context = join ''\<newline>\<newline>---\<newline>\<newline>'' (map text_c retrieved);
                       prompt = ragPrompt context question;
                       pages = uniquePages engine retrieved
                   in \<lparr> yielded = getCompletionStream generateContentStream prompt @
                                  (if length pages > 0 then [sourcesFragment pages] else []),
                        thrown = None,
                        requests = [EmbedRequest (cleanText question), GenerateRequest prompt] \<rparr>))))"

section \<open>The App component: \<open>handleSendMessage\<close>\<close>

datatype Role = User | Assistant











text \<open>
  For the analysis of the loop: the number of window starts \<open>start, start + step, \<dots>\<close>
  that lie below \<open>len\<close>.
\<close>

definition windowCount :: "int \<Rightarrow> int \<Rightarrow> int \<Rightarrow> nat" where
  "windowCount len step start = nat ((len - start + step - 1) div step)"

text \<open>
  For the analysis of the embedding loop: what the request for the chunk at index \<open>j\<close>
  makes of that chunk.
\<close>

definition embedded :: "'v embedApi \<Rightarrow> nat \<Rightarrow> 'v DocChunk \<Rightarrow> 'v DocChunk" where
  "embedded embedContent j c =
     (case getEmbedding embedContent j (text_c c) of
        Inr v \<Rightarrow> c\<lparr>embedding := Some v\<rparr>
      | Inl e \<Rightarrow> c)"

section \<open>Example data\<close>

text \<open>Seven short pages, one chunk each, and a capability that fails on requests 2 and 5.\<close>

definition sevenPages :: "Page list" where
  "sevenPages = [\<lparr>text_p = ''p1'', page_p = 1\<rparr>, \<lparr>text_p = ''p2'', page_p = 2\<rparr>,
      \<lparr>text_p = ''p3'', page_p = 3\<rparr>, \<lparr>text_p = ''p4'', page_p = 4\<rparr>,
      \<lparr>text_p = ''p5'', page_p = 5\<rparr>, \<lparr>text_p = ''p6'', page_p = 6\<rparr>,
      \<lparr>text_p = ''p7'', page_p = 7\<rparr>]"

definition failsAt2And5 :: "nat embedApi" where
  "failsAt2And5 k t = (if k = 2 \<or> k = 5 then Inl (CapabilityError ''quota'') else Inr (Some [k]))"

text \<open>
  Ten embedded chunks on the pages 1, 1, 2, 3, 3, 4, 4, 5, 5, 6, with plane vectors as
  embeddings. Against the question embedding \<open>(1, 0)\<close> their similarities are 0.6, -0.6,
  0, 12/13, 0.6, 0.8, 0.6, 12/13, 5/13 and 0.6.
\<close>

definition exampleChunk :: "string \<Rightarrow> int \<Rightarrow> real list \<Rightarrow> real list DocChunk" where
  "exampleChunk i pg v = \<lparr> id_c = i, text_c = ''text of '' @ i, embedding = Some v, pageNumber = pg \<rparr>"

definition tenChunks :: "real list DocChunk list" where
  "tenChunks =
     [exampleChunk ''1-0'' 1 [3, 4], exampleChunk ''1-3500'' 1 [-3, 4], exampleChunk ''2-0'' 2 [0, 1],
      exampleChunk ''3-0'' 3 [12, 5], exampleChunk ''3-3500'' 3 [3, 4], exampleChunk ''4-0'' 4 [4, 3],
      exampleChunk ''4-3500'' 4 [3, 4], exampleChunk ''5-0'' 5 [12, 5], exampleChunk ''5-3500'' 5 [5, 12],
      exampleChunk ''6-0'' 6 [3, 4]]"


text \<open>
  Capabilities of the examples: an embedding service that answers every request with the
  vector \<open>(1, 0)\<close>, one that fails every request, a generation stream that delivers an
  answer in pieces (one chunk without text, one with the empty text), and one that fails
  after its first piece.
\<close>

definition embedsAll :: "real list embedApi" where
  "embedsAll k t = Inr (Some [[1, 0]])"

definition embedsNone :: "real list embedApi" where
  "embedsNone k t = Inl (CapabilityError ''quota'')"

definition answersInPieces :: genApi where
  "answersInPieces prompt = ([Some ''Short '', None, Some [], Some ''answer.''], None)"


text \<open>
  A sort engine that, where the language leaves the order to it, returns the array as it
  is. A sort that moves an element only past one that compares greater (insertion sort,
  merge sort) does so on an array in which each element compares equal to its neighbour,
  as it is with the scores 0.6, \<open>NaN\<close>, 0.8.
\<close>

definition leavesInPlace :: sortEngine where
  "leavesInPlace comparisons = [0 ..< length comparisons]"



text \<open>
  A document of one page that is one character longer than the limit of the summary
  prompt: 3000000 times \<open>a\<close> and then \<open>Z\<close>.
\<close>

definition longText :: string where
  "longText = replicate 3000000 CHR ''a'' @ ''Z''"

section \<open>Facts about the chunker\<close>

lemma toString_eval:
  "toString 0 = ''0''" "toString 1 = ''1''" "toString 3 = ''3''" "toString 3500 = ''3500''"
  by (simp_all add: toString_def showNat.simps digitChar_def)

lemma id_c_mkChunk: "id_c (mkChunk text pg chunkSize start) = toString pg @ ''-'' @ toString start"
  by (simp add: mkChunk_def Let_def)

lemma text_c_mkChunk:
  "text_c (mkChunk text pg chunkSize start) =
   slice text start (min (start + chunkSize) (int (length text)))"
  by (simp add: mkChunk_def Let_def)

lemma chunkLoop_done:
  "int (length text) \<le> start \<Longrightarrow> chunkLoop text pg chunkSize overlap start chunks = Some chunks"
  by (subst chunkLoop.simps) simp

lemma chunkLoop_step:
  "start < int (length text) \<Longrightarrow>
   chunkLoop text pg chunkSize overlap start chunks =
   chunkLoop text pg chunkSize overlap (start + (chunkSize - overlap))
     (chunks @ [mkChunk text pg chunkSize start])"
  by (subst chunkLoop.simps) (simp add: Let_def chunkLoop_done)

lemma windowCount_done:
  assumes "0 < step" "len \<le> start"
  shows "windowCount len step start = 0"
proof -
  have "(len - start + step - 1) div step \<le> (step - 1) div step"
    using assms by (intro zdiv_mono1) simp_all
  also have "(step - 1) div step = 0"
    using assms(1) by simp
  finally show ?thesis by (simp add: windowCount_def)
qed

lemma windowCount_step:
  assumes "0 < step" "start < len"
  shows "windowCount len step start = Suc (windowCount len step (start + step))"
proof -
  have "(len - start + step - 1) div step = (len - (start + step) + step - 1) div step + 1"
    using assms(1) div_add_self2[of step "len - (start + step) + step - 1"]
    by (simp add: algebra_simps)
  moreover have "0 \<le> (len - (start + step) + step - 1) div step"
    using assms by (simp add: pos_imp_zdiv_nonneg_iff)
  ultimately show ?thesis by (simp add: windowCount_def nat_add_distrib)
qed

lemma windowCount_iff:
  assumes "0 < step"
  shows "k < windowCount len step start \<longleftrightarrow> start + int k * step < len"
proof (induction k arbitrary: start)
  case 0
  show ?case
  proof (cases "start < len")
    case True
    then show ?thesis using windowCount_step[OF assms True] by simp
  next
    case False
    then show ?thesis using windowCount_done[OF assms, of len start] by simp
  qed
next
  case (Suc k)
  show ?case
  proof (cases "start < len")
    case True
    then show ?thesis
      using windowCount_step[OF assms True] Suc[of "start + step"] by (simp add: algebra_simps)
  next
    case False
    have "0 \<le> int (Suc k) * step" using assms by simp
    then show ?thesis using False windowCount_done[OF assms, of len start] by linarith
  qed
qed

lemma chunkLoop_windows:
  assumes "0 < chunkSize - overlap"
  shows "chunkLoop text pg chunkSize overlap start chunks =
         Some (chunks @ map (\<lambda>k. mkChunk text pg chunkSize (start + int k * (chunkSize - overlap)))
                          [0..<windowCount (int (length text)) (chunkSize - overlap) start])"
proof (induction "windowCount (int (length text)) (chunkSize - overlap) start"
       arbitrary: start chunks)
  case 0
  then have "\<not> start < int (length text)"
    using windowCount_iff[OF assms, of 0 "int (length text)" start] by simp
  then show ?case using 0 by (simp add: chunkLoop_done)
next
  case (Suc n)
  then have lt: "start < int (length text)"
    using windowCount_iff[OF assms, of 0 "int (length text)" start] by simp
  have n: "n = windowCount (int (length text)) (chunkSize - overlap) (start + (chunkSize - overlap))"
    using Suc(2) windowCount_step[OF assms lt] by simp
  show ?case
    unfolding chunkLoop_step[OF lt] Suc(1)[OF n] windowCount_step[OF assms lt] map_upt_Suc
    by (simp add: algebra_simps)
qed

lemma forEachPage_returns:
  assumes "0 < chunkSize - overlap"
  shows "\<exists>r. forEachPage pages chunkSize overlap chunks = Some r"
  by (induction pages arbitrary: chunks) (simp_all add: chunkLoop_windows[OF assms])

text \<open>With a step that is not positive the loop on a non-empty rest never returns.\<close>

lemma chunkLoop_diverges_aux:
  assumes "chunkLoop text pg chunkSize overlap start chunks = Some r"
  shows "\<not> (chunkSize - overlap \<le> 0 \<and> start < int (length text))"
proof (rule chunkLoop.raw_induct
         [where P = "\<lambda>t p cs ov s acc r. \<not> (cs - ov \<le> 0 \<and> s < int (length t))", OF _ assms],
       goal_cases)
  case (1 loop t p cs ov s acc r)
  show ?case
  proof
    assume bad: "cs - ov \<le> 0 \<and> s < int (length t)"
    then have "s + (cs - ov) < int (length t)" by linarith
    with bad 1(2) have "loop t p cs ov (s + (cs - ov)) (acc @ [mkChunk t p cs s]) = Some r"
      by (simp add: Let_def)
    from 1(1)[OF this] bad show False by linarith
  qed
qed

lemma chunkLoop_diverges:
  "chunkSize - overlap \<le> 0 \<Longrightarrow> start < int (length text) \<Longrightarrow>
   chunkLoop text pg chunkSize overlap start chunks = None"
  using chunkLoop_diverges_aux[of "text" pg chunkSize overlap start chunks]
  by (cases "chunkLoop text pg chunkSize overlap start chunks") auto

section \<open>Facts about the embedding loop\<close>

lemma embedChunk_nth:
  assumes "j < length chunks" "k < length chunks"
  shows "embedChunk embedContent j chunks ! k =
         (if k = j then embedded embedContent j (chunks ! j) else chunks ! k)"
  using assms by (simp add: embedChunk_def embedded_def split: sum.splits)

lemma fold_embedChunk_nth:
  assumes "b \<le> length chunks" "k < length chunks"
  shows "fold (embedChunk embedContent) [a..<b] chunks ! k =
         (if a \<le> k \<and> k < b then embedded embedContent k (chunks ! k) else chunks ! k)"
  using assms
proof (induction b arbitrary: k)
  case 0
  then show ?case by simp
next
  case (Suc b)
  show ?case
  proof (cases "a \<le> b")
    case True
    let ?done = "fold (embedChunk embedContent) [a..<b] chunks"
    have len: "length ?done = length chunks"
      by (rule length_fold_embedChunk)
    have b: "b < length chunks" "b \<le> length chunks" using Suc.prems by simp_all
    have at_b: "?done ! b = chunks ! b"
      using Suc.IH[OF b(2) b(1)] by simp
    have at_k: "?done ! k = (if a \<le> k \<and> k < b then embedded embedContent k (chunks ! k) else chunks ! k)"
      using Suc.IH[OF b(2) Suc.prems(2)] .
    have "fold (embedChunk embedContent) [a..<Suc b] chunks ! k = embedChunk embedContent b ?done ! k"
      using True by simp
    also have "\<dots> = (if k = b then embedded embedContent b (?done ! b) else ?done ! k)"
      using b Suc.prems(2) by (simp add: embedChunk_nth len)
    finally show ?thesis
      using True by (auto simp add: at_b at_k less_Suc_eq)
  next
    case False
    then have e: "[a..<Suc b] = []" by simp
    from False have n: "(a \<le> k \<and> k < Suc b) = False" by auto
    show ?thesis unfolding e n by simp
  qed
qed

lemma embedBatch_nth:
  assumes "k < length chunks"
  shows "embedBatch embedContent i chunks ! k =
         (if i \<le> k \<and> k < i + batchSize then embedded embedContent k (chunks ! k) else chunks ! k)"
  using assms by (simp add: embedBatch_def fold_embedChunk_nth)

lemma length_embedLoop: "length (embedLoop embedContent i chunks) = length chunks"
proof (induction embedContent i chunks rule: embedLoop.induct)
  case (1 embedContent i chunks)
  then show ?case
    by (subst embedLoop.simps) (simp add: length_embedBatch)
qed

lemma embedLoop_nth:
  "k < length chunks \<Longrightarrow>
   embedLoop embedContent i chunks ! k =
   (if i \<le> k then embedded embedContent k (chunks ! k) else chunks ! k)"
proof (induction embedContent i chunks rule: embedLoop.induct)
  case (1 embedContent i chunks)
  show ?case
  proof (cases "i < length chunks")
    case True
    have "embedLoop embedContent i chunks ! k =
          embedLoop embedContent (i + batchSize) (embedBatch embedContent i chunks) ! k"
      using True by (subst embedLoop.simps) simp
    also have "\<dots> = (if i + batchSize \<le> k
                     then embedded embedContent k (embedBatch embedContent i chunks ! k)
                     else embedBatch embedContent i chunks ! k)"
      using 1 True by (simp add: length_embedBatch)
    finally show ?thesis
      using 1(2) by (auto simp add: embedBatch_nth)
  next
    case False
    then show ?thesis using 1(2) by (subst embedLoop.simps) simp
  qed
qed

lemma embedLoop_all:
  "embedLoop embedContent 0 chunks =
   map (\<lambda>(j, c). embedded embedContent j c) (enumerate 0 chunks)"
  by (rule nth_equalityI) (simp_all add: length_embedLoop embedLoop_nth nth_enumerate_eq)

lemma chunkLoop_no_embedding:
  assumes "0 < chunkSize - overlap"
    and "chunkLoop text pg chunkSize overlap start acc = Some r"
    and "list_all (\<lambda>c. embedding c = None) acc"
  shows "list_all (\<lambda>c. embedding c = None) r"
  using assms(2,3) unfolding chunkLoop_windows[OF assms(1)]
  by (auto simp add: list_all_iff mkChunk_def Let_def)

lemma forEachPage_no_embedding:
  assumes "0 < chunkSize - overlap"
  shows "forEachPage pages chunkSize overlap acc = Some r \<Longrightarrow>
         list_all (\<lambda>c. embedding c = None) acc \<Longrightarrow>
         list_all (\<lambda>c. embedding c = None) r"
proof (induction pages arbitrary: acc)
  case Nil
  then show ?case by simp
next
  case (Cons p ps)
  from Cons.prems(1) obtain acc' where
    step: "chunkLoop (text_p p) (page_p p) chunkSize overlap 0 acc = Some acc'"
    and rest: "forEachPage ps chunkSize overlap acc' = Some r"
    by (auto split: option.splits)
  from chunkLoop_no_embedding[OF assms step Cons.prems(2)] Cons.IH[OF rest]
  show ?case by simp
qed

lemma chunkText_no_embedding:
  "chunkText pages defaultChunkSize defaultOverlap = Some cs \<Longrightarrow>
   list_all (\<lambda>c. embedding c = None) cs"
  unfolding chunkText_def
  by (rule forEachPage_no_embedding[of defaultChunkSize defaultOverlap pages "[]"])
     (simp_all add: defaultChunkSize_def defaultOverlap_def)

lemma chunkText_default_returns:
  "\<exists>cs. chunkText pages defaultChunkSize defaultOverlap = Some cs"
  unfolding chunkText_def
  by (rule forEachPage_returns) (simp add: defaultChunkSize_def defaultOverlap_def)

lemma filter_embedded:
  assumes "list_all (\<lambda>c. embedding c = None) cs"
  shows "filter (\<lambda>c. embedding c \<noteq> None) (map (\<lambda>(j, c). embedded embedContent j c) (enumerate n cs)) =
         List.map_filter
           (\<lambda>(j, c). case getEmbedding embedContent j (text_c c) of
                        Inr v \<Rightarrow> Some (c\<lparr>embedding := Some v\<rparr>)
                      | Inl e \<Rightarrow> None)
           (enumerate n cs)"
  using assms
  by (induction cs arbitrary: n)
     (auto simp add: List.map_filter_simps embedded_def split: sum.splits)

lemma processPdf_result:
  assumes "chunkText pages defaultChunkSize defaultOverlap = Some cs"
  shows "processPdf (Inr pages) embedContent =
         Some (Inr \<lparr> chunks_d =
                       List.map_filter
                         (\<lambda>(j, c). case getEmbedding embedContent j (text_c c) of
                                      Inr v \<Rightarrow> Some (c\<lparr>embedding := Some v\<rparr>)
                                    | Inl e \<Rightarrow> None)
                         (enumerate 0 cs),
                     fullText_d = join ''\<newline>\<newline>'' (map text_p pages) \<rparr>)"
  using filter_embedded[OF chunkText_no_embedding[OF assms], of embedContent 0]
  by (simp add: processPdf_def assms embedLoop_all)

lemma map_filter_all_None: "(\<And>x. f x = None) \<Longrightarrow> List.map_filter f xs = []"
  by (induction xs) (simp_all add: List.map_filter_simps)

section \<open>Facts about sorting and ranking\<close>

lemma slice_from_0: "0 \<le> n \<Longrightarrow> slice xs 0 n = take (nat n) xs"
  by (auto simp add: slice_def Let_def min_def)

lemma mset_insertBy: "mset (insertBy compare x ys) = add_mset x (mset ys)"
  by (induction ys) simp_all

lemma mset_insertion: "mset (foldr (insertBy compare) xs []) = mset xs"
  by (induction xs) (simp_all add: mset_insertBy)

lemma mset_engineOrder: "mset (engineOrder indices xs) = mset xs"
proof (cases "mset indices = mset [0 ..< length xs]")
  case True
  then have "mset (map (\<lambda>i. xs ! i) indices) = mset (map (\<lambda>i. xs ! i) [0 ..< length xs])"
    by (metis mset_map)
  then show ?thesis using True by (simp add: engineOrder_def map_nth)
next
  case False
  then show ?thesis by (simp add: engineOrder_def)
qed

text \<open>Whatever the comparator and the engine, sorting returns a permutation.\<close>

lemma mset_sortBy: "mset (sortBy engine compare xs) = mset xs"
  by (simp add: sortBy_def mset_insertion mset_engineOrder)

lemma length_sortBy: "length (sortBy engine compare xs) = length xs"
  by (metis mset_sortBy size_mset)


lemma sortBy_Nil: "sortBy engine compare [] = []"
  using length_sortBy[of engine compare "[]"] by simp

lemma sortBy_consistent:
  "consistentComparator compare xs \<Longrightarrow> sortBy engine compare xs = foldr (insertBy compare) xs []"
  by (simp add: sortBy_def)

lemma insertBy_insort_key:
  assumes "\<And>y. y \<in> set ys \<Longrightarrow> sortCompare (compare x y) \<le> 0 \<longleftrightarrow> key x \<le> key y"
  shows "insertBy compare x ys = insort_key key x ys"
  using assms by (induction ys) simp_all

lemma insertion_sort_key:
  assumes "\<And>x y. x \<in> set xs \<Longrightarrow> y \<in> set xs \<Longrightarrow>
             sortCompare (compare x y) \<le> 0 \<longleftrightarrow> key x \<le> key y"
  shows "foldr (insertBy compare) xs [] = sort_key key xs"
  using assms
proof (induction xs)
  case Nil
  then show ?case by simp
next
  case (Cons x xs)
  have rest: "foldr (insertBy compare) xs [] = sort_key key xs"
    by (rule Cons.IH) (simp add: Cons.prems)
  have "insertBy compare x (sort_key key xs) = insort_key key x (sort_key key xs)"
    by (rule insertBy_insort_key) (simp add: Cons.prems)
  then show ?case
    using rest by (simp add: sort_key_def)
qed

text \<open>
  The comparator of the ranking is consistent exactly when no score is \<open>NaN\<close>; the key
  of a score for the descending order is then its negation.
\<close>

lemma consistentComparator_iff:
  "consistentComparator compare xs \<longleftrightarrow>
   (\<forall>a \<in> set xs. \<forall>b \<in> set xs. \<forall>c \<in> set xs. consistentAt compare a b c)"
  by (simp add: consistentComparator_def list_all_iff)

lemma score_consistentAt:
  assumes "score a = Num u" "score b = Num v" "score c = Num w"
  shows "consistentAt (\<lambda>a b. numMinus (score b) (score a)) a b c"
  unfolding consistentAt_def assms numMinus.simps sortCompare.simps number.simps
  by (intro conjI impI; (elim conjE)?; linarith?; simp?)

lemma score_consistentAt_number:
  assumes "consistentAt (\<lambda>a b. numMinus (score b) (score a)) a a a"
  shows "score a \<noteq> NaN"
proof -
  from assms have "numMinus (score a) (score a) \<noteq> NaN"
    unfolding consistentAt_def by blast
  then show ?thesis by (cases "score a") simp_all
qed

lemma score_is_number:
  assumes "list_all (\<lambda>c. score c \<noteq> NaN) xs" and "a \<in> set xs"
  shows "\<exists>v. score a = Num v"
  using assms unfolding list_all_iff by (metis number.exhaust)

lemma score_comparator_consistent:
  "consistentComparator (\<lambda>a b. numMinus (score b) (score a)) xs \<longleftrightarrow>
   list_all (\<lambda>c. score c \<noteq> NaN) xs"
proof
  assume c: "consistentComparator (\<lambda>a b. numMinus (score b) (score a)) xs"
  have all: "\<forall>a \<in> set xs. \<forall>b \<in> set xs. \<forall>c \<in> set xs.
               consistentAt (\<lambda>a b. numMinus (score b) (score a)) a b c"
    using c by (simp only: consistentComparator_iff)
  have "score a \<noteq> NaN" if a: "a \<in> set xs" for a
  proof (rule score_consistentAt_number)
    from all a have "\<forall>b \<in> set xs. \<forall>c \<in> set xs.
               consistentAt (\<lambda>a b. numMinus (score b) (score a)) a b c"
      by (rule bspec)
    from this a have "\<forall>c \<in> set xs. consistentAt (\<lambda>a b. numMinus (score b) (score a)) a a c"
      by (rule bspec)
    from this a show "consistentAt (\<lambda>a b. numMinus (score b) (score a)) a a a"
      by (rule bspec)
  qed
  then show "list_all (\<lambda>c. score c \<noteq> NaN) xs"
    by (simp only: list_all_iff) (rule ballI)
next
  assume n: "list_all (\<lambda>c. score c \<noteq> NaN) xs"
  have each: "consistentAt (\<lambda>a b. numMinus (score b) (score a)) a b c"
    if a: "a \<in> set xs" and b: "b \<in> set xs" and c: "c \<in> set xs" for a b c
  proof -
    obtain u where u: "score a = Num u" using score_is_number[OF n a] ..
    obtain v where v: "score b = Num v" using score_is_number[OF n b] ..
    obtain w where w: "score c = Num w" using score_is_number[OF n c] ..
    from u v w show ?thesis by (rule score_consistentAt)
  qed
  show "consistentComparator (\<lambda>a b. numMinus (score b) (score a)) xs"
    by (simp only: consistentComparator_iff) (intro ballI, rule each)
qed


lemma int_comparator_consistent:
  "consistentComparator (\<lambda>a b. Num (of_int a - of_int b)) (xs :: int list)"
  unfolding consistentComparator_iff consistentAt_def sortCompare.simps number.simps
  by (intro ballI conjI impI; (elim conjE)?; linarith?; simp?)

lemma sortBy_int: "sortBy engine (\<lambda>a b. Num (of_int a - of_int b)) (xs :: int list) = sort xs"
proof -
  have "foldr (insertBy (\<lambda>a b. Num (of_int a - of_int b))) xs [] = sort_key (\<lambda>x. x) xs"
    by (rule insertion_sort_key) simp
  then show ?thesis
    by (simp add: sortBy_consistent int_comparator_consistent)
qed

lemma topChunks_take:
  "topChunks engine scored = take 8 (sortBy engine (\<lambda>a b. numMinus (score b) (score a)) scored)"
  by (simp add: topChunks_def slice_from_0)

lemma length_topChunks: "length (topChunks engine scored) = min 8 (length scored)"
  by (simp add: topChunks_take length_sortBy)


lemma set_arrayFromSet_aux:
  "set (fold (\<lambda>x seen. if x \<in> set seen then seen else seen @ [x]) xs acc) = set xs \<union> set acc"
  by (induction xs arbitrary: acc) auto

lemma distinct_arrayFromSet_aux:
  "distinct acc \<Longrightarrow> distinct (fold (\<lambda>x seen. if x \<in> set seen then seen else seen @ [x]) xs acc)"
  by (induction xs arbitrary: acc) auto

lemma set_arrayFromSet: "set (arrayFromSet xs) = set xs"
  by (simp add: arrayFromSet_def set_arrayFromSet_aux)

lemma distinct_arrayFromSet: "distinct (arrayFromSet xs)"
  by (simp add: arrayFromSet_def distinct_arrayFromSet_aux)

lemma uniquePages_sorted_set:
  "uniquePages engine retrieved = sorted_list_of_set (pageNumber ` set retrieved)"
proof -
  have "sort (arrayFromSet (map pageNumber retrieved)) =
        sorted_list_of_set (set (arrayFromSet (map pageNumber retrieved)))"
    by (metis distinct_arrayFromSet distinct_remdups_id sorted_list_of_set_sort_remdups)
  then show ?thesis by (simp add: uniquePages_def sortBy_int set_arrayFromSet)
qed


lemma scoredChunks_length:
  "scoredChunks q cs = Inr scored \<Longrightarrow> length scored = length cs"
  by (induction cs arbitrary: scored) (auto split: sum.splits)

lemma scoredChunks_each:
  "scoredChunks q cs = Inr scored \<Longrightarrow>
   list_all2 (\<lambda>chunk sc. scoreChunk q chunk = Inr sc) cs scored"
  by (induction cs arbitrary: scored) (auto split: sum.splits)

lemma sqrt_examples: "sqrt 25 = 5" "sqrt 169 = 13"
  by (rule real_sqrt_unique; simp)+

lemma cosine_examples:
  "cosineSimilarity [1, 0] [3, 4] = Num (3/5)"
  "cosineSimilarity [1, 0] [-3, 4] = Num (-3/5)"
  "cosineSimilarity [1, 0] [0, 1] = Num 0"
  "cosineSimilarity [1, 0] [12, 5] = Num (12/13)"
  "cosineSimilarity [1, 0] [4, 3] = Num (4/5)"
  "cosineSimilarity [1, 0] [5, 12] = Num (5/13)"
  "cosineSimilarity [1, 0] [0, 0] = NaN"
  by (simp_all add: cosineSimilarity_def cosineSums_def element_def sqrt_examples)

text \<open>The similarity in closed form.\<close>

lemma cosineSums_upto:
  assumes "n \<le> length vecA"
  shows "fold (\<lambda>i (dotProduct, normA, normB).
             (numPlus dotProduct (numTimes (element vecA i) (element vecB i)),
              numPlus normA (numTimes (element vecA i) (element vecA i)),
              numPlus normB (numTimes (element vecB i) (element vecB i))))
          [0 ..< n] (Num 0, Num 0, Num 0) =
         (if n \<le> length vecB then Num (\<Sum>i<n. vecA ! i * vecB ! i) else NaN,
          Num (\<Sum>i<n. vecA ! i * vecA ! i),
          if n \<le> length vecB then Num (\<Sum>i<n. vecB ! i * vecB ! i) else NaN)"
  using assms
proof (induction n)
  case 0
  then show ?case by simp
next
  case (Suc n)
  then have "n \<le> length vecA" "n < length vecA" by simp_all
  with Suc.IH show ?case
    by (simp add: element_def)
qed

lemma cosineSimilarity_closed:
  "cosineSimilarity vecA vecB =
   (if length vecA \<le> length vecB
       \<and> (\<Sum>i<length vecA. vecA ! i * vecA ! i) \<noteq> 0
       \<and> (\<Sum>i<length vecA. vecB ! i * vecB ! i) \<noteq> 0
    then Num ((\<Sum>i<length vecA. vecA ! i * vecB ! i) /
              (sqrt (\<Sum>i<length vecA. vecA ! i * vecA ! i) *
               sqrt (\<Sum>i<length vecA. vecB ! i * vecB ! i)))
    else NaN)"
proof -
  have a: "0 \<le> (\<Sum>i<length vecA. vecA ! i * vecA ! i)"
    by (rule sum_nonneg) simp
  have b: "0 \<le> (\<Sum>i<length vecA. vecB ! i * vecB ! i)"
    by (rule sum_nonneg) simp
  show ?thesis
    unfolding cosineSimilarity_def cosineSums_def cosineSums_upto[OF order_refl]
    using a b by (simp add: not_less)
qed

text \<open>
  Where the divisor of the similarity is zero the dividend is zero too, so the division
  there is \<open>0 / 0\<close> and no infinity is lost.
\<close>

lemma cosine_divisor_zero:
  assumes "length vecA \<le> length vecB"
    and "(\<Sum>i<length vecA. vecA ! i * vecA ! i) = 0 \<or> (\<Sum>i<length vecA. vecB ! i * vecB ! i) = 0"
  shows "(\<Sum>i<length vecA. vecA ! i * vecB ! i) = (0::real)"
proof -
  have zero: "(\<Sum>i<n. f i * f i) = 0 \<Longrightarrow> i < n \<Longrightarrow> f i = 0" for f :: "nat \<Rightarrow> real" and n i
  proof -
    assume s: "(\<Sum>i<n. f i * f i) = 0" and i: "i < n"
    have "\<forall>i\<in>{..<n}. f i * f i = 0"
      using s by (subst (asm) sum_nonneg_eq_0_iff) simp_all
    with i show "f i = 0" by simp
  qed
  from assms(2) have "\<forall>i<length vecA. vecA ! i * vecB ! i = 0"
    using zero[of "\<lambda>i. vecA ! i"] zero[of "\<lambda>i. vecB ! i"] by auto
  then show ?thesis by (intro sum.neutral) simp
qed









section \<open>Facts about the summary test\<close>

lemma of_char_canonicalize:
  "(of_char (canonicalize c) :: nat) =
   (if 97 \<le> (of_char c :: nat) \<and> (of_char c :: nat) \<le> 122 then of_char c - 32 else of_char c)"
  by (auto simp add: canonicalize_def Let_def)

lemma of_char_lowerChar:
  "(of_char (lowerChar c) :: nat) =
   (if 65 \<le> (of_char c :: nat) \<and> (of_char c :: nat) \<le> 90 then of_char c + 32 else of_char c)"
  by (simp add: lowerChar_def Let_def)

lemma fold_case_codes:
  fixes m n :: nat
  shows "((if 97 \<le> m \<and> m \<le> 122 then m - 32 else m) = (if 97 \<le> n \<and> n \<le> 122 then n - 32 else n))
     \<longleftrightarrow> ((if 65 \<le> m \<and> m \<le> 90 then m + 32 else m) = (if 65 \<le> n \<and> n \<le> 90 then n + 32 else n))"
  by (simp split: if_splits) linarith

lemma canonicalize_eq_iff: "canonicalize a = canonicalize b \<longleftrightarrow> lowerChar a = lowerChar b"
proof -
  have "canonicalize a = canonicalize b \<longleftrightarrow>
        (of_char (canonicalize a) :: nat) = of_char (canonicalize b)"
    by simp
  also have "\<dots> \<longleftrightarrow> (of_char (lowerChar a) :: nat) = of_char (lowerChar b)"
    unfolding of_char_canonicalize of_char_lowerChar by (rule fold_case_codes)
  also have "\<dots> \<longleftrightarrow> lowerChar a = lowerChar b"
    by simp
  finally show ?thesis .
qed

lemma matchLiteral_iff:
  "matchLiteral p s \<longleftrightarrow>
   (\<exists>s1 rest. s = s1 @ rest \<and> toLowerCase s1 = toLowerCase p)"
proof (induction p s rule: matchLiteral.induct)
  case (1 s)
  then show ?case by (simp add: toLowerCase_def)
next
  case (2 p ps)
  then show ?case by (simp add: toLowerCase_def)
next
  case (3 p ps c cs)
  show ?case
  proof
    assume "matchLiteral (p # ps) (c # cs)"
    then obtain s1 rest where "lowerChar p = lowerChar c" "cs = s1 @ rest"
      "toLowerCase s1 = toLowerCase ps"
      using 3 by (auto simp add: canonicalize_eq_iff)
    then have "c # cs = (c # s1) @ rest \<and> toLowerCase (c # s1) = toLowerCase (p # ps)"
      by (simp add: toLowerCase_def)
    then show "\<exists>s1 rest. c # cs = s1 @ rest \<and> toLowerCase s1 = toLowerCase (p # ps)"
      by blast
  next
    assume "\<exists>s1 rest. c # cs = s1 @ rest \<and> toLowerCase s1 = toLowerCase (p # ps)"
    then obtain s1 rest where s: "c # cs = s1 @ rest" "toLowerCase s1 = toLowerCase (p # ps)"
      by blast
    from s(2) obtain d ds where s1: "s1 = d # ds"
      by (cases s1) (auto simp add: toLowerCase_def)
    with s have "d = c" "cs = ds @ rest" "lowerChar c = lowerChar p" "toLowerCase ds = toLowerCase ps"
      by (auto simp add: toLowerCase_def)
    then show "matchLiteral (p # ps) (c # cs)"
      using 3 by (auto simp add: canonicalize_eq_iff)
  qed
qed

lemma regexTest_iff:
  "regexTest alternatives s \<longleftrightarrow>
   (\<exists>alt \<in> set alternatives. \<exists>before after. s = before @ after \<and> matchLiteral alt after)"
proof (induction s)
  case Nil
  then show ?case by (simp add: list_ex_iff)
next
  case (Cons c cs)
  show ?case
  proof
    assume "regexTest alternatives (c # cs)"
    then consider "\<exists>alt \<in> set alternatives. matchLiteral alt (c # cs)" | "regexTest alternatives cs"
      by (auto simp add: list_ex_iff)
    then show "\<exists>alt \<in> set alternatives. \<exists>before after. c # cs = before @ after \<and> matchLiteral alt after"
    proof cases
      case 1
      then show ?thesis by (metis append_Nil)
    next
      case 2
      with Cons obtain alt before after where
        "alt \<in> set alternatives" "cs = before @ after" "matchLiteral alt after"
        by blast
      then have "alt \<in> set alternatives \<and> c # cs = (c # before) @ after \<and> matchLiteral alt after"
        by simp
      then show ?thesis by blast
    qed
  next
    assume "\<exists>alt \<in> set alternatives. \<exists>before after. c # cs = before @ after \<and> matchLiteral alt after"
    then obtain alt before after where
      a: "alt \<in> set alternatives" "c # cs = before @ after" "matchLiteral alt after"
      by blast
    show "regexTest alternatives (c # cs)"
    proof (cases before)
      case Nil
      with a show ?thesis by (auto simp add: list_ex_iff)
    next
      case (Cons b bs)
      with a have "cs = bs @ after" by simp
      with a(1,3) have "regexTest alternatives cs"
        using Cons.IH by blast
      then show ?thesis by simp
    qed
  qed
qed

lemma toLowerCase_append: "toLowerCase (xs @ ys) = toLowerCase xs @ toLowerCase ys"
  by (simp add: toLowerCase_def)

lemma summaryKeywords_lower: "list_all (\<lambda>k. toLowerCase k = k) summaryKeywords"
proof -
  have "toLowerCase ''summar'' = ''summar''" by code_simp
  moreover have "toLowerCase ''overview'' = ''overview''" by code_simp
  moreover have "toLowerCase ''tl;dr'' = ''tl;dr''" by code_simp
  moreover have "toLowerCase ''digest'' = ''digest''" by code_simp
  moreover have "toLowerCase ''describe the document'' = ''describe the document''" by code_simp
  ultimately show ?thesis by (simp add: summaryKeywords_def)
qed

lemma toLowerCase_summaryKeywords:
  "k \<in> set summaryKeywords \<Longrightarrow> toLowerCase k = k"
  using summaryKeywords_lower by (simp add: list_all_iff)

lemma regexTest_includes:
  assumes "\<And>k. k \<in> set alternatives \<Longrightarrow> toLowerCase k = k"
  shows "regexTest alternatives s \<longleftrightarrow>
         (\<exists>k \<in> set alternatives. stringIncludes (toLowerCase s) k)"
proof
  assume "regexTest alternatives s"
  then obtain k before after where
    k: "k \<in> set alternatives" "s = before @ after" "matchLiteral k after"
    unfolding regexTest_iff by blast
  from k(3) obtain s1 rest where m: "after = s1 @ rest" "toLowerCase s1 = toLowerCase k"
    unfolding matchLiteral_iff by blast
  have "toLowerCase s = toLowerCase before @ k @ toLowerCase rest"
    using k(2) m assms[OF k(1)] by (simp add: toLowerCase_append)
  then have "stringIncludes (toLowerCase s) k"
    unfolding stringIncludes_def by blast
  with k(1) show "\<exists>k \<in> set alternatives. stringIncludes (toLowerCase s) k"
    by blast
next
  assume "\<exists>k \<in> set alternatives. stringIncludes (toLowerCase s) k"
  then obtain k before after where
    k: "k \<in> set alternatives" "toLowerCase s = before @ k @ after"
    unfolding stringIncludes_def by blast
  from k(2) have "map lowerChar s = before @ (k @ after)"
    by (simp add: toLowerCase_def)
  from this[unfolded map_eq_append_conv]
  obtain b vs where b: "s = b @ vs" "k @ after = map lowerChar vs"
    by blast
  from b(2)[unfolded append_eq_map_conv]
  obtain m a where m: "vs = m @ a" "k = map lowerChar m"
    by blast
  have "toLowerCase m = toLowerCase k"
    using m(2)[symmetric] assms[OF k(1)] by (simp add: toLowerCase_def)
  with m(1) have "matchLiteral k vs"
    unfolding matchLiteral_iff by blast
  with b(1) k(1) show "regexTest alternatives s"
    unfolding regexTest_iff by blast
qed

lemma isSummaryRequest_includes:
  "isSummaryRequest question \<longleftrightarrow>
   (\<exists>k \<in> set summaryKeywords. stringIncludes (toLowerCase question) k)"
  unfolding isSummaryRequest_def
  by (rule regexTest_includes) (rule toLowerCase_summaryKeywords)

section \<open>Facts about the answer generator and the message handler\<close>

lemma textToSend_take:
  "textToSend fullText =
   (if 3000000 < length fullText then take 3000000 fullText @ ''...[truncated]'' else fullText)"
  by (simp add: textToSend_def MAX_CHARS_def slice_from_0)

lemma generateAnswer_summary:
  assumes "isSummaryRequest question"
  shows "generateAnswer embedContent generateContentStream engine question docData =
         \<lparr> yielded = getCompletionStream generateContentStream
                        (summaryPrompt (textToSend (fullText_d docData)) question)
                      @ [summarySourceFragment],
           thrown = None,
           requests = [GenerateRequest (summaryPrompt (textToSend (fullText_d docData)) question)] \<rparr>"
  using assms by (simp add: generateAnswer_def Let_def)

lemma generateAnswer_retrieval:
  assumes "\<not> isSummaryRequest question"
    and "getEmbedding embedContent 0 question = Inr questionEmbedding"
    and "scoredChunks questionEmbedding (chunks_d docData) = Inr scored"
  shows "generateAnswer embedContent generateContentStream engine question docData =
         \<lparr> yielded = getCompletionStream generateContentStream
                        (ragPrompt (join ''\<newline>\<newline>---\<newline>\<newline>''
                           (map text_c (topChunks engine scored))) question)
                      @ (if length (uniquePages engine (topChunks engine scored)) > 0
                         then [sourcesFragment (uniquePages engine (topChunks engine scored))]
                         else []),
           thrown = None,
           requests = [EmbedRequest (cleanText question),
                       GenerateRequest
                         (ragPrompt (join ''\<newline>\<newline>---\<newline>\<newline>''
                            (map text_c (topChunks engine scored))) question)] \<rparr>"
  using assms by (simp add: generateAnswer_def Let_def)




lemma uniquePages_nonempty:
  assumes "scored \<noteq> []"
  shows "uniquePages engine (topChunks engine scored) \<noteq> []"
proof -
  have "0 < length (topChunks engine scored)"
    using assms by (simp add: length_topChunks)
  then have "topChunks engine scored \<noteq> []" by blast
  then have "pageNumber ` set (topChunks engine scored) \<noteq> {}" by simp
  then show ?thesis
    unfolding uniquePages_sorted_set
    by (metis List.finite_set finite_imageI sorted_list_of_set.set_sorted_key_list_of_set set_empty)
qed




lemma termination_question_not_summary:
  "\<not> isSummaryRequest ''What is the termination clause?''"
  by code_simp

lemma termination_question_embedded:
  "getEmbedding embedsAll 0 ''What is the termination clause?'' = Inr [1, 0]"
  by (simp add: getEmbedding_def embedsAll_def)

lemma tldr_question_summary: "isSummaryRequest ''Can you give a tl;dr?''"
  by code_simp

lemma tenChunks_scored:
  "scoredChunks [1, 0] tenChunks =
   Inr (map (\<lambda>(chunk, s). \<lparr> id_c = id_c chunk, text_c = text_c chunk, embedding = embedding chunk,
                              pageNumber = pageNumber chunk, score = s \<rparr>)
          (zip tenChunks
             [Num (3/5), Num (-3/5), Num 0, Num (12/13), Num (3/5), Num (4/5), Num (3/5),
              Num (12/13), Num (5/13), Num (3/5)]))"
  by (simp add: tenChunks_def exampleChunk_def scoreChunk_def cosine_examples)

lemma tenChunks_sorted:
  assumes "scoredChunks [1, 0] tenChunks = Inr scored"
  shows "sortBy engine (\<lambda>a b. numMinus (score b) (score a)) scored =
         foldr (insertBy (\<lambda>a b. numMinus (score b) (score a))) scored []"
proof -
  from assms have "list_all (\<lambda>c. score c \<noteq> NaN) scored"
    unfolding tenChunks_scored by (auto simp add: tenChunks_def exampleChunk_def)
  then show ?thesis
    by (simp add: sortBy_consistent score_comparator_consistent)
qed

lemma tenChunks_top:
  assumes "scoredChunks [1, 0] tenChunks = Inr scored"
  shows "map (\<lambda>c. (id_c c, pageNumber c)) (topChunks engine scored) =
     [(''3-0'', 3), (''5-0'', 5), (''4-0'', 4), (''1-0'', 1), (''3-3500'', 3), (''4-3500'', 4),
      (''6-0'', 6), (''5-3500'', 5)]"
  using assms unfolding topChunks_def tenChunks_sorted[OF assms] tenChunks_scored
  by (auto simp add: tenChunks_def exampleChunk_def slice_def)

lemma tenChunks_cited:
  assumes "scoredChunks [1, 0] tenChunks = Inr scored"
  shows "sorted_list_of_set (pageNumber ` set (topChunks engine scored)) = [1, 3, 4, 5, 6]"
proof -
  have "map pageNumber (topChunks engine scored) =
        map snd (map (\<lambda>c. (id_c c, pageNumber c)) (topChunks engine scored))"
    by (simp add: comp_def)
  then have "map pageNumber (topChunks engine scored) = [3, 5, 4, 1, 3, 4, 6, 5]"
    unfolding tenChunks_top[OF assms] by simp
  then have "pageNumber ` set (topChunks engine scored) = set [3, 5, 4, 1, 3, 4, 6, 5]"
    by (metis set_map)
  moreover have "sorted_list_of_set (set [3, 5, 4, 1, 3, 4, 6, 5 :: int]) =
                 sort (remdups [3, 5, 4, 1, 3, 4, 6, 5])"
    by (rule sorted_list_of_set_sort_remdups)
  moreover have "sort (remdups [3, 5, 4, 1, 3, 4, 6, 5 :: int]) = [1, 3, 4, 5, 6]"
    by simp
  ultimately show ?thesis by (simp only:)
qed

text \<open>The summary prompt has the text sent and the question in it, between fixed texts.\<close>

lemma summaryPrompt_includes:
  "stringIncludes (summaryPrompt sent question) sent"
  "stringIncludes (summaryPrompt sent question) question"
proof -
  show "stringIncludes (summaryPrompt sent question) sent"
    unfolding stringIncludes_def summaryPrompt_def
    by (metis append.assoc)
  show "stringIncludes (summaryPrompt sent question) question"
    unfolding stringIncludes_def summaryPrompt_def
    by (metis append.assoc)
qed


lemma processPdf_all_fail:
  assumes "\<forall>j t. isl (getEmbedding embedContent j t)"
  shows "processPdf (Inr pages) embedContent =
         Some (Inr \<lparr> chunks_d = [], fullText_d = join ''\<newline>\<newline>'' (map text_p pages) \<rparr>)"
proof -
  obtain cs :: "'a DocChunk list" where cs: "chunkText pages defaultChunkSize defaultOverlap = Some cs"
    using chunkText_default_returns by blast
  let ?keep = "\<lambda>(j, c). case getEmbedding embedContent j (text_c c) of
                        Inr v \<Rightarrow> Some (c\<lparr>embedding := Some v\<rparr>)
                      | Inl e \<Rightarrow> None"
  have "?keep x = None" for x
  proof (cases x)
    case (Pair j c)
    from assms have "isl (getEmbedding embedContent j (text_c c))" by blast
    then show ?thesis unfolding Pair by (cases "getEmbedding embedContent j (text_c c)") simp_all
  qed
  then have "List.map_filter ?keep (enumerate 0 cs) = []"
    by (rule map_filter_all_None)
  then show ?thesis
    using processPdf_result[OF cs, of embedContent] by simp
qed

lemma stringIncludes_subset: "stringIncludes s k \<Longrightarrow> set k \<subseteq> set s"
  by (auto simp add: stringIncludes_def)

section \<open>Claims about the chunker\<close>

text \<open>
  C1 (as amended). The loop of one page stops on the window start, not on the window end:
  with a positive step \<open>chunkSize - overlap\<close> it appends to the chunks pushed so far exactly
  the windows that start at \<open>0, step, 2 * step, \<dots>\<close> below the length of the page text, and
  no window after the first start that reaches the length. In particular a non-empty page of
  at most \<open>chunkSize - overlap\<close> characters gives exactly one chunk, and a page of exactly
  \<open>chunkSize\<close> characters gives at least two when the overlap is positive.
\<close>

theorem chunkLoop_stops_at_next_start:
  assumes "0 < chunkSize - overlap"
  shows "\<exists>n. chunkLoop text pg chunkSize overlap 0 chunks =
               Some (chunks @ map (\<lambda>k. mkChunk text pg chunkSize (int k * (chunkSize - overlap))) [0..<n])
           \<and> (\<forall>k. k < n \<longleftrightarrow> int k * (chunkSize - overlap) < int (length text))
           \<and> (0 < length text \<and> int (length text) \<le> chunkSize - overlap \<longrightarrow> n = 1)
           \<and> (int (length text) = chunkSize \<and> 0 < overlap \<longrightarrow> 2 \<le> n)"
proof -
  define n where "n = windowCount (int (length text)) (chunkSize - overlap) 0"
  have iff: "k < n \<longleftrightarrow> int k * (chunkSize - overlap) < int (length text)" for k
    using windowCount_iff[OF assms, of k "int (length text)" 0] by (simp add: n_def)
  have run: "chunkLoop text pg chunkSize overlap 0 chunks =
               Some (chunks @ map (\<lambda>k. mkChunk text pg chunkSize (int k * (chunkSize - overlap))) [0..<n])"
    using chunkLoop_windows[OF assms, of "text" pg 0 chunks] by (simp add: n_def)
  have one: "n = 1" if "0 < length text \<and> int (length text) \<le> chunkSize - overlap"
  proof -
    have "0 < n" using iff[of 0] that by simp
    moreover have "\<not> 1 < n" using iff[of 1] that by simp
    ultimately show ?thesis by simp
  qed
  have two: "2 \<le> n" if "int (length text) = chunkSize \<and> 0 < overlap"
  proof -
    have "1 < n" using iff[of 1] that by simp
    then show ?thesis by simp
  qed
  from run iff one two show ?thesis by blast
qed

text \<open>The theorem at the page \<open>abcd\<close>, windows of 4 with overlap 1: two chunks.\<close>

theorem chunkLoop_stops_at_next_start_witness:
  "(0::int) < 4 - 1 \<and>
   chunkLoop ''abcd'' 1 4 1 0 ([] :: unit DocChunk list) =
     Some [\<lparr>id_c = ''1-0'', text_c = ''abcd'', embedding = None, pageNumber = 1\<rparr>,
           \<lparr>id_c = ''1-3'', text_c = ''d'', embedding = None, pageNumber = 1\<rparr>]"
proof -
  have pos: "(0::int) < 4 - 1" by simp
  from chunkLoop_stops_at_next_start[OF pos, of "''abcd''" 1 "[] :: unit DocChunk list"]
  obtain n where
    run: "chunkLoop ''abcd'' 1 4 1 0 ([] :: unit DocChunk list) =
            Some ([] @ map (\<lambda>k. mkChunk ''abcd'' 1 4 (int k * (4 - 1))) [0..<n])"
    and two: "2 \<le> n"
    and iff: "\<forall>k. k < n \<longleftrightarrow> int k * (4 - 1) < int (length ''abcd'')"
    by auto
  from iff have "\<not> 2 < n" by simp
  with two have n: "n = Suc (Suc 0)" by simp
  show ?thesis
    unfolding run n
    by (simp add: mkChunk_def slice_def toString_eval Let_def)
qed

text \<open>
  C1 as stated fails: with the default sizes a page of exactly 4000 characters gives two
  chunks. The first window ends at 4000, the length of the page, and the loop still pushes
  the window that starts at 3500.
\<close>

theorem chunkText_page_of_chunkSize_counterexample:
  "map_option (map (\<lambda>c. (id_c c, length (text_c c))))
     (chunkText [\<lparr>text_p = replicate 4000 CHR ''a'', page_p = 1\<rparr>] defaultChunkSize defaultOverlap
        :: unit DocChunk list option)
   = Some [(''1-0'', 4000), (''1-3500'', 500)]"
  by (simp add: chunkText_def defaultChunkSize_def defaultOverlap_def chunkLoop_step chunkLoop_done
        id_c_mkChunk text_c_mkChunk slice_def toString_eval)

text \<open>
  C2 (as amended). For a non-empty page shorter than \<open>chunkSize\<close> (and a positive step) the
  first chunk pushed is the whole page text, and it is the only chunk of the page exactly
  when the page has at most \<open>chunkSize - overlap\<close> characters. An empty page adds no chunk.
\<close>

theorem short_page_first_chunk_is_whole_page:
  assumes "overlap < chunkSize" and "0 < length text" and "int (length text) < chunkSize"
  shows "(\<exists>c rest. chunkLoop text pg chunkSize overlap 0 chunks = Some (chunks @ c # rest)
            \<and> text_c c = text
            \<and> (rest = [] \<longleftrightarrow> int (length text) \<le> chunkSize - overlap))
       \<and> chunkLoop [] pg chunkSize overlap 0 chunks = Some chunks"
proof -
  have empty: "chunkLoop [] pg chunkSize overlap 0 chunks = Some chunks"
    by (simp add: chunkLoop_done)
  have step: "0 < chunkSize - overlap" using assms(1) by simp
  define n where "n = windowCount (int (length text)) (chunkSize - overlap) 0"
  have iff: "k < n \<longleftrightarrow> int k * (chunkSize - overlap) < int (length text)" for k
    using windowCount_iff[OF step, of k "int (length text)" 0] by (simp add: n_def)
  have "0 < n" using iff[of 0] assms(2) by simp
  then obtain m where n: "n = Suc m" by (cases n) auto
  have run: "chunkLoop text pg chunkSize overlap 0 chunks =
      Some (chunks @ mkChunk text pg chunkSize 0 #
              map (\<lambda>k. mkChunk text pg chunkSize (int (Suc k) * (chunkSize - overlap))) [0..<m])"
    using chunkLoop_windows[OF step, of "text" pg 0 chunks]
    unfolding n_def[symmetric] n map_upt_Suc by simp
  have whole: "text_c (mkChunk text pg chunkSize 0 :: 'a DocChunk) = text"
    using assms(2,3) by (simp add: text_c_mkChunk slice_def)
  have "m = 0 \<longleftrightarrow> int (length text) \<le> chunkSize - overlap"
    using iff[of 1] n by auto
  then have "map (\<lambda>k. mkChunk text pg chunkSize (int (Suc k) * (chunkSize - overlap)) :: 'a DocChunk)
                 [0..<m] = []
      \<longleftrightarrow> int (length text) \<le> chunkSize - overlap"
    by simp
  with run whole empty show ?thesis by blast
qed

text \<open>The theorem at the text \<open>abc\<close> of page 7, windows of 4 with overlap 1: one chunk.\<close>

theorem short_page_first_chunk_is_whole_page_witness:
  "(1::int) < 4 \<and> 0 < length ''abc'' \<and> int (length ''abc'') < 4 \<and>
   chunkLoop ''abc'' 7 4 1 0 ([] :: unit DocChunk list) =
     Some [\<lparr>id_c = ''7-0'', text_c = ''abc'', embedding = None, pageNumber = 7\<rparr>]"
proof -
  have h: "(1::int) < 4" "0 < length ''abc''" "int (length ''abc'') < 4" by simp_all
  from short_page_first_chunk_is_whole_page[OF h, of 7 "[] :: unit DocChunk list"]
  obtain c rest where
    run: "chunkLoop ''abc'' 7 4 1 0 ([] :: unit DocChunk list) = Some ([] @ c # rest)"
    and c: "text_c c = ''abc''"
    and rest: "rest = [] \<longleftrightarrow> int (length ''abc'') \<le> 4 - 1"
    by blast
  from rest have "rest = []" by simp
  moreover have "chunkLoop ''abc'' 7 4 1 0 ([] :: unit DocChunk list) =
     Some [\<lparr>id_c = ''7-0'', text_c = ''abc'', embedding = None, pageNumber = 7\<rparr>]"
    by (simp add: chunkLoop.simps mkChunk_def slice_def toString_def showNat.simps digitChar_def
          Let_def)
  ultimately show ?thesis using run c by simp
qed

text \<open>
  C2 as stated fails: with the default sizes a page of 3800 characters, shorter than 4000,
  gives two chunks, the whole page and the 300 characters from offset 3500.
\<close>

theorem chunkText_short_page_counterexample:
  "map_option (map (\<lambda>c. (id_c c, length (text_c c))))
     (chunkText [\<lparr>text_p = replicate 3800 CHR ''a'', page_p = 1\<rparr>] defaultChunkSize defaultOverlap
        :: unit DocChunk list option)
   = Some [(''1-0'', 3800), (''1-3500'', 300)]"
  by (simp add: chunkText_def defaultChunkSize_def defaultOverlap_def chunkLoop_step chunkLoop_done
        id_c_mkChunk text_c_mkChunk slice_def toString_eval)

text \<open>
  C3 (as amended). With a positive step \<open>chunkSize - overlap\<close>, which covers every
  configuration with \<open>0 < overlap < chunkSize\<close> and the defaults, \<open>chunkText\<close> returns on
  every list of pages. The code has no check of the configuration.
\<close>

theorem chunkText_returns_for_positive_step:
  assumes "0 < chunkSize - overlap"
  shows "\<exists>r. chunkText pages chunkSize overlap = Some r"
  unfolding chunkText_def by (rule forEachPage_returns[OF assms])

text \<open>The theorem at three pages, one of them empty, windows of 4 with overlap 1.\<close>

theorem chunkText_returns_for_positive_step_witness:
  "(0::int) < 4 - 1 \<and>
   map_option (map id_c)
     (chunkText [\<lparr>text_p = ''abcdefg'', page_p = 1\<rparr>, \<lparr>text_p = '''', page_p = 2\<rparr>,
                 \<lparr>text_p = ''xy'', page_p = 3\<rparr>] 4 1 :: unit DocChunk list option)
   = Some [''1-0'', ''1-3'', ''1-6'', ''3-0'']"
proof -
  have pos: "(0::int) < 4 - 1" by simp
  from chunkText_returns_for_positive_step[OF pos]
  obtain r :: "unit DocChunk list" where
    "chunkText [\<lparr>text_p = ''abcdefg'', page_p = 1\<rparr>, \<lparr>text_p = '''', page_p = 2\<rparr>,
                \<lparr>text_p = ''xy'', page_p = 3\<rparr>] 4 1 = Some r"
    by blast
  then show ?thesis
    by (auto simp add: chunkText_def chunkLoop.simps id_c_mkChunk toString_def showNat.simps
          digitChar_def Let_def)
qed

text \<open>
  C3 as stated fails: with \<open>chunkSize = overlap = 500\<close> the call on a page of one character
  is not rejected; it never returns.
\<close>

theorem chunkText_zero_step_counterexample:
  "(chunkText [\<lparr>text_p = ''a'', page_p = 1\<rparr>] 500 500 :: unit DocChunk list option) = None"
  by (simp add: chunkText_def chunkLoop_diverges)

section \<open>Claims about the embedding phase\<close>

text \<open>
  C4. A failed embedding request is not fatal. \<open>processPdf\<close> on extracted pages always
  returns a document, never an error; a chunk is in the document, with its embedding, exactly
  when its own request succeeded, whatever happened to the requests of the other chunks in
  its batch or in other batches; so the document has as many chunks as were cut minus the
  number of failed requests.
\<close>

theorem processPdf_drops_only_failed_chunks:
  "\<exists>cs doc.
     chunkText pages defaultChunkSize defaultOverlap = Some cs
     \<and> processPdf (Inr pages) embedContent = Some (Inr doc)
     \<and> chunks_d doc =
         List.map_filter
           (\<lambda>(j, c). case getEmbedding embedContent j (text_c c) of
                        Inr v \<Rightarrow> Some (c\<lparr>embedding := Some v\<rparr>)
                      | Inl e \<Rightarrow> None)
           (enumerate 0 cs)
     \<and> length (chunks_d doc) =
         length cs - card {j. j < length cs \<and> isl (getEmbedding embedContent j (text_c (cs ! j)))}"
proof -
  obtain cs :: "'a DocChunk list" where cs: "chunkText pages defaultChunkSize defaultOverlap = Some cs"
    using chunkText_default_returns by blast
  let ?keep = "\<lambda>(j, c). case getEmbedding embedContent j (text_c c) of
                        Inr v \<Rightarrow> Some (c\<lparr>embedding := Some v\<rparr>)
                      | Inl e \<Rightarrow> None"
  let ?doc = "\<lparr> chunks_d = List.map_filter ?keep (enumerate 0 cs),
                fullText_d = join ''\<newline>\<newline>'' (map text_p pages) \<rparr>"
  let ?fails = "{j. j < length cs \<and> isl (getEmbedding embedContent j (text_c (cs ! j)))}"
  let ?succeeds = "{j. j < length cs \<and> \<not> isl (getEmbedding embedContent j (text_c (cs ! j)))}"
  have run: "processPdf (Inr pages) embedContent = Some (Inr ?doc)"
    by (rule processPdf_result[OF cs])
  have "length (List.map_filter ?keep (enumerate 0 cs)) =
        length (filter (\<lambda>(j, c). \<not> isl (getEmbedding embedContent j (text_c c))) (enumerate 0 cs))"
    unfolding List.map_filter_def
    by (simp add: case_prod_unfold isl_def split: sum.splits cong: filter_cong) 
  also have "\<dots> = card ?succeeds"
    by (simp add: length_filter_conv_card nth_enumerate_eq case_prod_unfold cong: conj_cong)
  finally have l1: "length (List.map_filter ?keep (enumerate 0 cs)) = card ?succeeds" .
  have "?fails \<union> ?succeeds = {..<length cs}" "?fails \<inter> ?succeeds = {}" by auto
  then have "card ?fails + card ?succeeds = length cs"
    by (metis (no_types, lifting) card_Un_disjoint card_lessThan finite_Un finite_lessThan)
  with l1 have "length (chunks_d ?doc) = length cs - card ?fails" by simp
  with cs run show ?thesis by (intro exI[of _ cs] exI[of _ ?doc]) simp
qed

text \<open>
  The theorem at seven chunks of which the requests 2 and 5 fail: the document holds the
  other five chunks, each with the embedding of its own request.
\<close>

theorem processPdf_drops_only_failed_chunks_witness:
  "map_option (map_sum id (\<lambda>doc. map (\<lambda>c. (id_c c, embedding c)) (chunks_d doc)))
     (processPdf (Inr sevenPages) failsAt2And5)
   = Some (Inr [(''1-0'', Some 0), (''2-0'', Some 1), (''4-0'', Some 3), (''5-0'', Some 4),
                (''7-0'', Some 6)])"
proof -
  from processPdf_drops_only_failed_chunks[of sevenPages failsAt2And5]
  obtain cs doc where
    cs: "chunkText sevenPages defaultChunkSize defaultOverlap = Some cs"
    and run: "processPdf (Inr sevenPages) failsAt2And5 = Some (Inr doc)"
    and kept: "chunks_d doc =
         List.map_filter
           (\<lambda>(j, c). case getEmbedding failsAt2And5 j (text_c c) of
                        Inr v \<Rightarrow> Some (c\<lparr>embedding := Some v\<rparr>)
                      | Inl e \<Rightarrow> None)
           (enumerate 0 cs)"
    by blast
  have "chunkText sevenPages defaultChunkSize defaultOverlap =
     Some [mkChunk ''p1'' 1 4000 0, mkChunk ''p2'' 2 4000 0, mkChunk ''p3'' 3 4000 0,
           mkChunk ''p4'' 4 4000 0, mkChunk ''p5'' 5 4000 0, mkChunk ''p6'' 6 4000 0,
           mkChunk ''p7'' 7 4000 0 :: nat DocChunk]"
    by (simp add: sevenPages_def chunkText_def defaultChunkSize_def defaultOverlap_def
          chunkLoop_step chunkLoop_done)
  with cs have cs': "cs = [mkChunk ''p1'' 1 4000 0, mkChunk ''p2'' 2 4000 0, mkChunk ''p3'' 3 4000 0,
           mkChunk ''p4'' 4 4000 0, mkChunk ''p5'' 5 4000 0, mkChunk ''p6'' 6 4000 0,
           mkChunk ''p7'' 7 4000 0]"
    by simp
  show ?thesis
    unfolding run option.map map_sum.simps kept cs'
    by (simp add: List.map_filter_simps getEmbedding_def failsAt2And5_def id_c_mkChunk
          toString_def showNat.simps digitChar_def)
qed

section \<open>Claims about ranking\<close>



section \<open>Claims about strategy selection and answer synthesis\<close>

text \<open>
  C6. The summary test depends on the question text alone and is defined on every text. It
  holds exactly when the question, in lower case, contains one of the five keywords as a
  substring; it holds for \<open>Summarize this\<close> and for \<open>SUMMARIZE THIS\<close>.
\<close>

theorem isSummaryRequest_iff_keyword:
  "(isSummaryRequest question \<longleftrightarrow>
      (\<exists>k \<in> set [''summar'', ''overview'', ''tl;dr'', ''digest'', ''describe the document''].
         stringIncludes (toLowerCase question) k))
   \<and> isSummaryRequest ''Summarize this''
   \<and> isSummaryRequest ''SUMMARIZE THIS''"
proof -
  have iff: "isSummaryRequest q \<longleftrightarrow>
      (\<exists>k \<in> set [''summar'', ''overview'', ''tl;dr'', ''digest'', ''describe the document''].
         stringIncludes (toLowerCase q) k)" for q
    using isSummaryRequest_includes[of q] by (simp add: summaryKeywords_def)
  have "toLowerCase ''Summarize this'' = [] @ ''summar'' @ ''ize this''" by code_simp
  then have 1: "stringIncludes (toLowerCase ''Summarize this'') ''summar''"
    unfolding stringIncludes_def by blast
  have "toLowerCase ''SUMMARIZE THIS'' = [] @ ''summar'' @ ''ize this''" by code_simp
  then have 2: "stringIncludes (toLowerCase ''SUMMARIZE THIS'') ''summar''"
    unfolding stringIncludes_def by blast
  from 1 have "isSummaryRequest ''Summarize this''" unfolding iff by simp
  moreover from 2 have "isSummaryRequest ''SUMMARIZE THIS''" unfolding iff by simp
  ultimately show ?thesis using iff by blast
qed

text \<open>The theorem at a question that has the keyword inside a sentence.\<close>

theorem isSummaryRequest_iff_keyword_witness:
  "isSummaryRequest ''Can you give a tl;dr?''"
proof -
  have "toLowerCase ''Can you give a tl;dr?'' = ''can you give a '' @ ''tl;dr'' @ ''?''"
    by code_simp
  then have "stringIncludes (toLowerCase ''Can you give a tl;dr?'') ''tl;dr''"
    unfolding stringIncludes_def by blast
  then show ?thesis
    using isSummaryRequest_iff_keyword[of "''Can you give a tl;dr?''"] by simp
qed



text \<open>
  C8 (as amended). For a question that fails the summary test, whose embedding request
  succeeds and whose scoring of the chunks returns, the generator yields the fragments of
  the generation stream and then, when the document has at least one chunk, one last
  fragment that cites the page numbers of the retrieved chunks, each once, in increasing
  order, after \<open>Page\<close> when it is one page and after \<open>Pages\<close> when there are more. When the
  document has no chunk there is no page to cite and no such fragment.
\<close>

theorem retrieval_path_cites_sorted_unique_pages:
  assumes "\<not> isSummaryRequest question"
    and "getEmbedding embedContent 0 question = Inr questionEmbedding"
    and "scoredChunks questionEmbedding (chunks_d docData) = Inr scored"
    and "retrieved = topChunks engine scored"
    and "cited = sorted_list_of_set (pageNumber ` set retrieved)"
    and "prompt = ragPrompt (join ''\<newline>\<newline>---\<newline>\<newline>'' (map text_c retrieved)) question"
  shows "generateAnswer embedContent generateContentStream engine question docData =
         \<lparr> yielded = getCompletionStream generateContentStream prompt
                      @ (if chunks_d docData = [] then []
                         else [''\<newline>\<newline>**Sources:** Page'' @ (if 1 < length cited then ''s'' else [])
                               @ '' '' @ join '', '' (map toString cited)]),
           thrown = None,
           requests = [EmbedRequest (cleanText question), GenerateRequest prompt] \<rparr>
       \<and> (cited = [] \<longleftrightarrow> chunks_d docData = [])"
proof -
  have cited: "uniquePages engine retrieved = cited"
    by (simp add: uniquePages_sorted_set assms(5))
  have len: "length scored = length (chunks_d docData)"
    by (rule scoredChunks_length[OF assms(3)])
  have nonempty: "cited \<noteq> []" if "chunks_d docData \<noteq> []"
  proof -
    from that len have "scored \<noteq> []" by auto
    from uniquePages_nonempty[OF this, of engine] show ?thesis
      unfolding assms(4)[symmetric] cited .
  qed
  have empty: "cited = []" if "chunks_d docData = []"
  proof -
    from that len have "scored = []" by simp
    then show ?thesis by (simp add: assms(4,5) topChunks_take sortBy_Nil)
  qed
  show ?thesis
    unfolding generateAnswer_retrieval[OF assms(1,2,3)] assms(4)[symmetric] cited assms(6)[symmetric]
    using nonempty empty by (auto simp add: sourcesFragment_def)
qed

text \<open>
  The theorem at the ten example chunks: the eight retrieved chunks are on the pages 3, 5,
  4, 1, 3, 4, 6, 5, and the last fragment cites the pages 1, 3, 4, 5, 6.
\<close>

theorem retrieval_path_cites_sorted_unique_pages_witness:
  "\<not> isSummaryRequest ''What is the termination clause?'' \<and>
   getEmbedding embedsAll 0 ''What is the termination clause?'' = Inr [1, 0] \<and>
   \<not> isl (scoredChunks [1, 0] tenChunks) \<and>
   yielded (generateAnswer embedsAll answersInPieces leavesInPlace ''What is the termination clause?''
              \<lparr> chunks_d = tenChunks, fullText_d = ''Page one.'' \<rparr>) =
     [''Short '', ''answer.'', ''\<newline>\<newline>**Sources:** Pages 1, 3, 4, 5, 6'']"
proof -
  note q = termination_question_not_summary
  note e = termination_question_embedded
  obtain scored where scored: "scoredChunks [1, 0] tenChunks = Inr scored"
    using tenChunks_scored by blast
  have s: "scoredChunks [1, 0] (chunks_d \<lparr> chunks_d = tenChunks, fullText_d = ''Page one.'' \<rparr>) = Inr scored"
    using scored by simp
  have c: "[1, 3, 4, 5, 6] = sorted_list_of_set (pageNumber ` set (topChunks leavesInPlace scored))"
    by (simp add: tenChunks_cited[OF scored])
  from retrieval_path_cites_sorted_unique_pages
         [where question = "''What is the termination clause?''" and embedContent = embedsAll
            and questionEmbedding = "[1, 0]"
            and docData = "\<lparr> chunks_d = tenChunks, fullText_d = ''Page one.'' \<rparr>"
            and scored = scored and retrieved = "topChunks leavesInPlace scored"
            and cited = "[1, 3, 4, 5, 6]" and generateContentStream = answersInPieces,
          OF q e s refl c refl]
  have "yielded (generateAnswer embedsAll answersInPieces leavesInPlace ''What is the termination clause?''
              \<lparr> chunks_d = tenChunks, fullText_d = ''Page one.'' \<rparr>) =
     [''Short '', ''answer.'', ''\<newline>\<newline>**Sources:** Pages 1, 3, 4, 5, 6'']"
    by (simp add: getCompletionStream_def answersInPieces_def toString_def showNat.simps
          digitChar_def tenChunks_def)
  with q e scored show ?thesis by simp
qed

text \<open>
  C8 as stated fails: on a document without chunks (every embedding failed, or the pages
  had no text) the generator yields the fragments of the stream and no citation fragment.
\<close>

theorem retrieval_without_chunks_counterexample:
  "\<forall>engine.
     generateAnswer embedsAll answersInPieces engine ''What is the termination clause?''
       \<lparr> chunks_d = [], fullText_d = ''Page one.'' \<rparr> =
     \<lparr> yielded = [''Short '', ''answer.''],
       thrown = None,
       requests = [EmbedRequest ''What is the termination clause?'',
                   GenerateRequest (ragPrompt [] ''What is the termination clause?'')] \<rparr>"
proof
  note q = termination_question_not_summary
  note e = termination_question_embedded
  have s: "scoredChunks [1, 0] (chunks_d \<lparr> chunks_d = [], fullText_d = ''Page one.'' \<rparr>) = Inr []"
    by simp
  have c: "cleanText ''What is the termination clause?'' = ''What is the termination clause?''"
    by (simp add: cleanText_def)
  fix engine
  show "generateAnswer embedsAll answersInPieces engine ''What is the termination clause?''
          \<lparr> chunks_d = [], fullText_d = ''Page one.'' \<rparr> =
        \<lparr> yielded = [''Short '', ''answer.''],
          thrown = None,
          requests = [EmbedRequest ''What is the termination clause?'',
                      GenerateRequest (ragPrompt [] ''What is the termination clause?'')] \<rparr>"
    unfolding generateAnswer_retrieval[OF q e s] c
    by (simp add: topChunks_def sortBy_Nil slice_def uniquePages_def
          arrayFromSet_def getCompletionStream_def answersInPieces_def)
qed

section \<open>Claims about failures and the full text\<close>



text \<open>
  C10 (as amended). The full text of the processed document is the page texts in page
  order, joined by a blank line, whatever the embedding requests do; when every request
  fails the document has no chunks and the same full text. For a summary question the
  generator sends one request, whatever the chunks are, and its prompt has in it the
  complete full text when that has at most 3000000 characters, and otherwise the first
  3000000 characters of the full text followed by the truncation marker.
\<close>

theorem fullText_untouched_by_embedding:
  "\<exists>kept.
     processPdf (Inr pages) embedContent =
       Some (Inr \<lparr> chunks_d = kept, fullText_d = join ''\<newline>\<newline>'' (map text_p pages) \<rparr>)
     \<and> ((\<forall>j t. isl (getEmbedding embedContent j t)) \<longrightarrow> kept = [])
     \<and> (isSummaryRequest question \<longrightarrow>
          (\<exists>prompt.
             requests (generateAnswer embedContent' generateContentStream engine question
                         \<lparr> chunks_d = kept, fullText_d = join ''\<newline>\<newline>'' (map text_p pages) \<rparr>)
               = [GenerateRequest prompt]
             \<and> (length (join ''\<newline>\<newline>'' (map text_p pages)) \<le> 3000000 \<longrightarrow>
                  stringIncludes prompt (join ''\<newline>\<newline>'' (map text_p pages)))
             \<and> (3000000 < length (join ''\<newline>\<newline>'' (map text_p pages)) \<longrightarrow>
                  stringIncludes prompt
                    (take 3000000 (join ''\<newline>\<newline>'' (map text_p pages)) @ ''...[truncated]''))))"
proof -
  let ?full = "join ''\<newline>\<newline>'' (map text_p pages)"
  obtain cs :: "real list DocChunk list" where
    cs: "chunkText pages defaultChunkSize defaultOverlap = Some cs"
    using chunkText_default_returns by blast
  let ?keep = "\<lambda>(j, c). case getEmbedding embedContent j (text_c c) of
                        Inr v \<Rightarrow> Some (c\<lparr>embedding := Some v\<rparr>)
                      | Inl e \<Rightarrow> None"
  let ?kept = "List.map_filter ?keep (enumerate 0 cs)"
  have run: "processPdf (Inr pages) embedContent =
       Some (Inr \<lparr> chunks_d = ?kept, fullText_d = ?full \<rparr>)"
    by (rule processPdf_result[OF cs])
  have none: "?kept = []" if "\<forall>j t. isl (getEmbedding embedContent j t)"
    using processPdf_all_fail[OF that, of pages] run by simp
  have summary:
    "\<exists>prompt.
       requests (generateAnswer embedContent' generateContentStream engine question
                   \<lparr> chunks_d = ?kept, fullText_d = ?full \<rparr>) = [GenerateRequest prompt]
       \<and> (length ?full \<le> 3000000 \<longrightarrow> stringIncludes prompt ?full)
       \<and> (3000000 < length ?full \<longrightarrow>
            stringIncludes prompt (take 3000000 ?full @ ''...[truncated]''))"
    if "isSummaryRequest question"
  proof -
    let ?prompt = "summaryPrompt (textToSend ?full) question"
    have "requests (generateAnswer embedContent' generateContentStream engine question
                   \<lparr> chunks_d = ?kept, fullText_d = ?full \<rparr>) = [GenerateRequest ?prompt]"
      unfolding generateAnswer_summary[OF that] by simp
    moreover have inc: "stringIncludes ?prompt (textToSend ?full)"
      by (rule summaryPrompt_includes)
    have "length ?full \<le> 3000000 \<longrightarrow> stringIncludes ?prompt ?full"
      using inc by (auto simp add: textToSend_take)
    moreover have "3000000 < length ?full \<longrightarrow>
                   stringIncludes ?prompt (take 3000000 ?full @ ''...[truncated]'')"
      using inc by (auto simp add: textToSend_take)
    ultimately show ?thesis by blast
  qed
  from run none summary show ?thesis by blast
qed

text \<open>
  The theorem at two pages with an embedding service that fails every request: no chunk
  is left, and the one request of the summary question has both pages in its prompt.
\<close>

theorem fullText_untouched_by_embedding_witness:
  "(\<forall>j t. isl (getEmbedding embedsNone j t)) \<and>
   isSummaryRequest ''Can you give a tl;dr?'' \<and>
   length ''Page one.\<newline>\<newline>Page two.'' \<le> 3000000 \<and>
   processPdf (Inr [\<lparr>text_p = ''Page one.'', page_p = 1\<rparr>, \<lparr>text_p = ''Page two.'', page_p = 2\<rparr>])
     embedsNone =
     Some (Inr \<lparr> chunks_d = [], fullText_d = ''Page one.\<newline>\<newline>Page two.'' \<rparr>) \<and>
   (\<exists>prompt.
      requests (generateAnswer embedsNone answersInPieces leavesInPlace ''Can you give a tl;dr?''
                  \<lparr> chunks_d = [], fullText_d = ''Page one.\<newline>\<newline>Page two.'' \<rparr>) =
        [GenerateRequest prompt]
      \<and> stringIncludes prompt ''Page one.\<newline>\<newline>Page two.'')"
proof -
  let ?pages = "[\<lparr>text_p = ''Page one.'', page_p = 1\<rparr>, \<lparr>text_p = ''Page two.'', page_p = 2\<rparr>]"
  have fails: "\<forall>j t. isl (getEmbedding embedsNone j t)"
    by (simp add: getEmbedding_def embedsNone_def)
  have full: "join ''\<newline>\<newline>'' (map text_p ?pages) = ''Page one.\<newline>\<newline>Page two.''"
    by simp
  from fullText_untouched_by_embedding
         [of ?pages embedsNone "''Can you give a tl;dr?''" embedsNone answersInPieces]
  obtain kept where
    run: "processPdf (Inr ?pages) embedsNone =
            Some (Inr \<lparr> chunks_d = kept, fullText_d = ''Page one.\<newline>\<newline>Page two.'' \<rparr>)"
    and none: "(\<forall>j t. isl (getEmbedding embedsNone j t)) \<longrightarrow> kept = []"
    and req: "isSummaryRequest ''Can you give a tl;dr?'' \<longrightarrow>
          (\<exists>prompt.
             requests (generateAnswer embedsNone answersInPieces leavesInPlace ''Can you give a tl;dr?''
                         \<lparr> chunks_d = kept, fullText_d = ''Page one.\<newline>\<newline>Page two.'' \<rparr>)
               = [GenerateRequest prompt]
             \<and> (length ''Page one.\<newline>\<newline>Page two.'' \<le> 3000000 \<longrightarrow>
                  stringIncludes prompt ''Page one.\<newline>\<newline>Page two.'')
             \<and> (3000000 < length ''Page one.\<newline>\<newline>Page two.'' \<longrightarrow>
                  stringIncludes prompt
                    (take 3000000 ''Page one.\<newline>\<newline>Page two.'' @ ''...[truncated]'')))"
    unfolding full by blast
  from none fails have kept: "kept = []" by blast
  have short: "length ''Page one.\<newline>\<newline>Page two.'' \<le> 3000000" by simp
  from req tldr_question_summary short obtain prompt where
    "requests (generateAnswer embedsNone answersInPieces leavesInPlace ''Can you give a tl;dr?''
                  \<lparr> chunks_d = kept, fullText_d = ''Page one.\<newline>\<newline>Page two.'' \<rparr>) =
        [GenerateRequest prompt]"
    "stringIncludes prompt ''Page one.\<newline>\<newline>Page two.''"
    by blast
  then have "\<exists>prompt.
      requests (generateAnswer embedsNone answersInPieces leavesInPlace ''Can you give a tl;dr?''
                  \<lparr> chunks_d = [], fullText_d = ''Page one.\<newline>\<newline>Page two.'' \<rparr>) =
        [GenerateRequest prompt]
      \<and> stringIncludes prompt ''Page one.\<newline>\<newline>Page two.''"
    unfolding kept by blast
  with fails tldr_question_summary short run show ?thesis
    unfolding kept by blast
qed

text \<open>
  C10 as stated fails: for a page of 3000001 characters, 3000000 times \<open>a\<close> and then \<open>Z\<close>,
  with every embedding request failing, the full text of the document is the whole page,
  and the prompt of the summary question has the first 3000000 characters and the
  truncation marker in it, not the complete text: no \<open>Z\<close> occurs in the prompt.
\<close>

theorem long_document_prompt_counterexample:
  "processPdf (Inr [\<lparr>text_p = longText, page_p = 1\<rparr>]) embedsNone =
     Some (Inr \<lparr> chunks_d = [], fullText_d = longText \<rparr>) \<and>
   requests (generateAnswer embedsNone answersInPieces leavesInPlace ''Can you give a tl;dr?''
               \<lparr> chunks_d = [], fullText_d = longText \<rparr>) =
     [GenerateRequest
        (summaryPrompt (replicate 3000000 CHR ''a'' @ ''...[truncated]'') ''Can you give a tl;dr?'')] \<and>
   \<not> stringIncludes
        (summaryPrompt (replicate 3000000 CHR ''a'' @ ''...[truncated]'') ''Can you give a tl;dr?'')
        longText"
proof -
  have fails: "\<forall>j t. isl (getEmbedding embedsNone j t)"
    by (simp add: getEmbedding_def embedsNone_def)
  have run: "processPdf (Inr [\<lparr>text_p = longText, page_p = 1\<rparr>]) embedsNone =
     Some (Inr \<lparr> chunks_d = [], fullText_d = longText \<rparr>)"
    using processPdf_all_fail[OF fails, of "[\<lparr>text_p = longText, page_p = 1\<rparr>]"] by simp
  have sent: "textToSend longText = replicate 3000000 CHR ''a'' @ ''...[truncated]''"
    by (simp add: textToSend_take longText_def)
  have req: "requests (generateAnswer embedsNone answersInPieces leavesInPlace ''Can you give a tl;dr?''
               \<lparr> chunks_d = [], fullText_d = longText \<rparr>) =
     [GenerateRequest
        (summaryPrompt (replicate 3000000 CHR ''a'' @ ''...[truncated]'') ''Can you give a tl;dr?'')]"
    unfolding generateAnswer_summary[OF tldr_question_summary] by (simp add: sent)
  have "CHR ''Z'' \<in> set longText" by (simp add: longText_def)
  moreover have "CHR ''Z'' \<notin> set (summaryPrompt (replicate 3000000 CHR ''a'' @ ''...[truncated]'')
                                    ''Can you give a tl;dr?'')"
    by (simp add: summaryPrompt_def)
  ultimately have "\<not> stringIncludes
        (summaryPrompt (replicate 3000000 CHR ''a'' @ ''...[truncated]'') ''Can you give a tl;dr?'')
        longText"
    using stringIncludes_subset by blast
  with run req show ?thesis by simp
qed

end
